theory Spec2Isabelle
  imports Main "HOL-Library.Word" "HOL-Library.AList"
begin


section \<open>The descriptor-set cache of the Vulkan backend\<close>

text \<open>
  A shallow embedding of \<^verbatim>\<open>createDescriptorSets\<close> and \<^verbatim>\<open>bindDescriptors\<close>
  (the descriptor-set cache source, with the data declarations of its header and of
  \<^verbatim>\<open>VulkanPipelineCache.h\<close>). Machine integers are words of their width, Vulkan handles are
  64-bit words with \<open>0\<close> for \<^verbatim>\<open>VK_NULL_HANDLE\<close>, the hash maps are association lists
  read with \<^const>\<open>map_of\<close>, and a pointer to a map entry is the key of that entry.
  The functions return the calls they make to the driver as a list, in order, next to the
  new state of the cache. \<^verbatim>\<open>assert_invariant\<close> is the no-op of a release build, so the
  branches that follow a failed assertion are part of the model; where the source then uses
  the back of an empty vector or the end iterator of a map, the model returns a fault.
\<close>

subsection \<open>Integers, handles and constants\<close>

type_synonym u8 = "8 word"
type_synonym u16 = "16 word"
type_synonym u32 = "32 word"
type_synonym u64 = "64 word"

type_synonym VkBuffer = u64
type_synonym VkSampler = u64
type_synonym VkImageView = u64
type_synonym VkImageLayout = u32
type_synonym VkDescriptorSet = u64
type_synonym VkDescriptorSetLayout = u64
type_synonym VkDescriptorPool = u64
type_synonym VkPipelineLayout = u64
type_synonym VkCommandBuffer = u64
type_synonym VkDeviceSize = u64
type_synonym Timestamp = u64
type_synonym PipelineLayoutKey = "128 word"
type_synonym VulkanResource = u64

text \<open>
  \<^verbatim>\<open>UBUFFER_BINDING_COUNT\<close> and \<^verbatim>\<open>SAMPLER_BINDING_COUNT\<close> name constants declared
  outside the source at hand; their values follow from the asserted layout of
  \<^verbatim>\<open>DescriptorKey\<close>: 80 bytes of 8-byte buffer handles, 1488 bytes of 24-byte sampler
  infos.
\<close>

definition UBUFFER_BINDING_COUNT :: nat where
  "UBUFFER_BINDING_COUNT = 10"

definition SAMPLER_BINDING_COUNT :: nat where
  "SAMPLER_BINDING_COUNT = 62"

definition INPUT_ATTACHMENT_COUNT :: nat where
  "INPUT_ATTACHMENT_COUNT = 1"

definition DESCRIPTOR_TYPE_COUNT :: nat where
  "DESCRIPTOR_TYPE_COUNT = 3"

definition INITIAL_DESCRIPTOR_SET_POOL_SIZE :: u32 where
  "INITIAL_DESCRIPTOR_SET_POOL_SIZE = 512"

text \<open>Values of the Vulkan API used by the write phase.\<close>

definition VK_WHOLE_SIZE :: VkDeviceSize where
  "VK_WHOLE_SIZE = - 1"

definition VK_STRUCTURE_TYPE_WRITE_DESCRIPTOR_SET :: u32 where
  "VK_STRUCTURE_TYPE_WRITE_DESCRIPTOR_SET = 35"

definition VK_DESCRIPTOR_TYPE_COMBINED_IMAGE_SAMPLER :: u32 where
  "VK_DESCRIPTOR_TYPE_COMBINED_IMAGE_SAMPLER = 1"

definition VK_DESCRIPTOR_TYPE_UNIFORM_BUFFER :: u32 where
  "VK_DESCRIPTOR_TYPE_UNIFORM_BUFFER = 6"

definition VK_DESCRIPTOR_TYPE_INPUT_ATTACHMENT :: u32 where
  "VK_DESCRIPTOR_TYPE_INPUT_ATTACHMENT = 10"

datatype VkResult =
    VK_SUCCESS
  | VK_ERROR_OUT_OF_HOST_MEMORY
  | VK_ERROR_OUT_OF_DEVICE_MEMORY
  | VK_ERROR_FRAGMENTED_POOL
  | VK_ERROR_OUT_OF_POOL_MEMORY

subsection \<open>Keys and cache entries\<close>

record VkDescriptorImageInfo =
  vk_sampler :: VkSampler
  vk_imageView :: VkImageView
  vk_imageLayout :: VkImageLayout

text \<open>\<^verbatim>\<open>DescriptorImageInfo\<close>: the Vulkan struct with its padding made a field.\<close>

record DescriptorImageInfo =
  sampler :: VkSampler
  imageView :: VkImageView
  imageLayout :: VkImageLayout
  padding :: u32

text \<open>The assignment operator from the Vulkan struct, which zeroes the padding.\<close>

definition DescriptorImageInfo_assign :: "DescriptorImageInfo \<Rightarrow> VkDescriptorImageInfo \<Rightarrow> DescriptorImageInfo" where
  "DescriptorImageInfo_assign this that =
     this\<lparr>sampler := vk_sampler that, imageView := vk_imageView that,
          imageLayout := vk_imageLayout that, padding := 0\<rparr>"

text \<open>The conversion operator to the Vulkan struct.\<close>

definition to_VkDescriptorImageInfo :: "DescriptorImageInfo \<Rightarrow> VkDescriptorImageInfo" where
  "to_VkDescriptorImageInfo this =
     \<lparr>vk_sampler = sampler this, vk_imageView = imageView this, vk_imageLayout = imageLayout this\<rparr>"

record DescriptorKey =
  uniformBuffers :: "VkBuffer list"
  samplers :: "DescriptorImageInfo list"
  inputAttachments :: "DescriptorImageInfo list"
  uniformBufferOffsets :: "u32 list"
  uniformBufferSizes :: "u32 list"

text \<open>The arrays of a key have their declared sizes.\<close>

definition DescriptorKey_wf :: "DescriptorKey \<Rightarrow> bool" where
  "DescriptorKey_wf k \<longleftrightarrow>
     length (uniformBuffers k) = UBUFFER_BINDING_COUNT \<and>
     length (samplers k) = SAMPLER_BINDING_COUNT \<and>
     length (inputAttachments k) = INPUT_ATTACHMENT_COUNT \<and>
     length (uniformBufferOffsets k) = UBUFFER_BINDING_COUNT \<and>
     length (uniformBufferSizes k) = UBUFFER_BINDING_COUNT"

text \<open>
  The pipeline key of \<^verbatim>\<open>VulkanPipelineCache.h\<close>. A bit-field is a word of its width; the two
  floats of the raster state are their 32-bit patterns, which is all that a byte-wise
  comparison or hash sees of them.
\<close>

record RasterState =
  cullMode :: "2 word"
  frontFace :: "2 word"
  depthBiasEnable :: "1 word"
  blendEnable :: "1 word"
  depthWriteEnable :: "1 word"
  alphaToCoverageEnable :: "1 word"
  srcColorBlendFactor :: "5 word"
  dstColorBlendFactor :: "5 word"
  srcAlphaBlendFactor :: "5 word"
  dstAlphaBlendFactor :: "5 word"
  colorWriteMask :: "4 word"
  rasterizationSamples :: u8
  colorTargetCount :: u8
  colorBlendOp :: "4 word"
  alphaBlendOp :: "4 word"
  depthCompareOp :: u8
  depthBiasConstantFactor :: u32
  depthBiasSlopeFactor :: u32

record VertexInputAttributeDescription =
  attr_location :: u8
  attr_binding :: u8
  attr_format :: u16
  attr_offset :: u32

record VertexInputBindingDescription =
  vb_binding :: u16
  vb_inputRate :: u16
  vb_stride :: u32

record PipelineKey =
  shaders :: "u64 list"
  renderPass :: u64
  topology :: u16
  subpassIndex :: u16
  vertexAttributes :: "VertexInputAttributeDescription list"
  vertexBuffers :: "VertexInputBindingDescription list"
  rasterState :: RasterState
  pk_padding :: u32
  layout :: PipelineLayoutKey

record DescriptorCacheEntry =
  handles :: "VkDescriptorSet list"
  lastUsed :: Timestamp
  pipelineLayout :: PipelineLayoutKey
  id_entry :: u32

record PipelineLayoutCacheEntry =
  handle :: VkPipelineLayout
  layoutLastUsed :: Timestamp
  descriptorSetLayouts :: "VkDescriptorSetLayout list"
  descriptorSetArenas :: "VkDescriptorSet list list"

subsection \<open>Descriptor writes\<close>

record VkDescriptorBufferInfo =
  buffer :: VkBuffer
  offset :: VkDeviceSize
  range_size :: VkDeviceSize

text \<open>
  A pointer to an info struct is the struct it points to at the time of the update call, or
  \<open>None\<close> for \<^verbatim>\<open>nullptr\<close>.
\<close>

record VkWriteDescriptorSet =
  sType :: u32
  pNext :: u64
  dstSet :: VkDescriptorSet
  dstBinding :: u32
  dstArrayElement :: u32
  descriptorCount :: u32
  descriptorType :: u32
  pImageInfo :: "VkDescriptorImageInfo option"
  pBufferInfo :: "VkDescriptorBufferInfo option"
  pTexelBufferView :: u64

subsection \<open>The cache, its collaborators and its results\<close>

record VulkanPipelineCache =
  mPipelineLayouts :: "(PipelineLayoutKey \<times> PipelineLayoutCacheEntry) list"
  mPipelineRequirements :: PipelineKey
  mCurrentTime :: Timestamp
  mPipelineBoundResources :: "VulkanResource list"
  mDescriptorCacheEntryCount :: u32
  mDescriptorSets :: "(DescriptorKey \<times> DescriptorCacheEntry) list"
  mDescriptorResources :: "(u32 \<times> VulkanResource list) list"
  mDescriptorPoolSize :: u32
  mDescriptorArenasCount :: u32
  mDescriptorPool :: VkDescriptorPool
  mExtinctDescriptorPools :: "VkDescriptorPool list"
  mExtinctDescriptorBundles :: "DescriptorCacheEntry list"
  mDummyBufferWriteInfo :: VkWriteDescriptorSet
  mDescriptorRequirements :: DescriptorKey
  mBoundDescriptor :: DescriptorKey

text \<open>
  What the cache takes from outside the two functions: the constant \<^verbatim>\<open>WHOLE_SIZE\<close>, whose
  declaration is not in the source at hand, and the answers of the driver to the calls made
  during one \<^verbatim>\<open>bindDescriptors\<close>.
\<close>

record Externals =
  WHOLE_SIZE :: u32
  allocationResult :: VkResult
  allocatedSets :: "nat \<Rightarrow> VkDescriptorSet"
  createdPool :: VkDescriptorPool
  createdPoolSize :: u32
  createdPipelineLayout :: VkPipelineLayout
  createdSetLayouts :: "VkDescriptorSetLayout list"

text \<open>
  The calls that the two functions make, with the arguments that matter here: the growth of
  the pool, the three calls to the driver, and the acquisition by the tracker of an id.
\<close>

datatype Call =
    Call_growDescriptorPool
  | Call_vkAllocateDescriptorSets VkDescriptorPool nat "VkDescriptorSetLayout list"
  | Call_vkUpdateDescriptorSets "VkWriteDescriptorSet list"
  | Call_acquireAll u32 "VulkanResource list"
  | Call_vkCmdBindDescriptorSets VkCommandBuffer VkPipelineLayout "VkDescriptorSet list"

text \<open>
  Where the source has no defined behaviour: \<^verbatim>\<open>back\<close> and \<^verbatim>\<open>pop_back\<close> on an empty
  arena, a write through the end iterator of the map, and the use of a pointer to an entry
  that is not in its map (which the two functions never come to).
\<close>

datatype Fault =
    BackOfEmptyVector
  | EndIteratorDereferenced
  | DanglingEntryPointer

type_synonym 'a Result = "Fault + ('a \<times> VulkanPipelineCache \<times> Call list)"

subsection \<open>The byte images of the keys, their equality and their hash\<close>

text \<open>
  The bytes of a value that occupies \<open>n\<close> bytes, least significant byte first. (The order
  of the bytes within a field has no bearing on what follows.)
\<close>

fun le_bytes :: "nat \<Rightarrow> nat \<Rightarrow> u8 list" where
  "le_bytes 0 v = []"
| "le_bytes (Suc n) v = of_nat (v mod 256) # le_bytes n (v div 256)"

definition u8_bytes :: "u8 \<Rightarrow> u8 list" where
  "u8_bytes w = le_bytes 1 (unat w)"

definition u16_bytes :: "u16 \<Rightarrow> u8 list" where
  "u16_bytes w = le_bytes 2 (unat w)"

definition u32_bytes :: "u32 \<Rightarrow> u8 list" where
  "u32_bytes w = le_bytes 4 (unat w)"

definition u64_bytes :: "u64 \<Rightarrow> u8 list" where
  "u64_bytes w = le_bytes 8 (unat w)"

definition u128_bytes :: "128 word \<Rightarrow> u8 list" where
  "u128_bytes w = le_bytes 16 (unat w)"

text \<open>
  \<^verbatim>\<open>DescriptorImageInfo\<close>: 8 + 8 + 4 + 4 bytes. \<^verbatim>\<open>DescriptorKey\<close>: the five arrays
  at the offsets 0, 80, 1568, 1592 and 1632 that the header asserts, 1672 bytes in all.
\<close>

definition DescriptorImageInfo_bytes :: "DescriptorImageInfo \<Rightarrow> u8 list" where
  "DescriptorImageInfo_bytes info =
     u64_bytes (sampler info) @ u64_bytes (imageView info) @
     u32_bytes (imageLayout info) @ u32_bytes (padding info)"

definition DescriptorKey_bytes :: "DescriptorKey \<Rightarrow> u8 list" where
  "DescriptorKey_bytes k =
     concat (map u64_bytes (uniformBuffers k)) @
     concat (map DescriptorImageInfo_bytes (samplers k)) @
     concat (map DescriptorImageInfo_bytes (inputAttachments k)) @
     concat (map u32_bytes (uniformBufferOffsets k)) @
     concat (map u32_bytes (uniformBufferSizes k))"

text \<open>
  \<^verbatim>\<open>RasterState\<close>, 16 bytes: the six bit-fields of byte 0, the five of bytes 1 to 3, two
  bytes, the two 4-bit fields of byte 6, a byte and the two floats, as the offsets noted in
  the header have them; within a unit the first bit-field takes the lowest bits.
\<close>

definition RasterState_bytes :: "RasterState \<Rightarrow> u8 list" where
  "RasterState_bytes r =
     le_bytes 1
       (unat (cullMode r) + 4 * (unat (frontFace r) + 4 * (unat (depthBiasEnable r) +
          2 * (unat (blendEnable r) + 2 * (unat (depthWriteEnable r) +
          2 * unat (alphaToCoverageEnable r)))))) @
     le_bytes 3
       (unat (srcColorBlendFactor r) + 32 * (unat (dstColorBlendFactor r) +
          32 * (unat (srcAlphaBlendFactor r) + 32 * (unat (dstAlphaBlendFactor r) +
          32 * unat (colorWriteMask r))))) @
     u8_bytes (rasterizationSamples r) @
     u8_bytes (colorTargetCount r) @
     le_bytes 1 (unat (colorBlendOp r) + 16 * unat (alphaBlendOp r)) @
     u8_bytes (depthCompareOp r) @
     u32_bytes (depthBiasConstantFactor r) @
     u32_bytes (depthBiasSlopeFactor r)"

definition VertexInputAttributeDescription_bytes :: "VertexInputAttributeDescription \<Rightarrow> u8 list" where
  "VertexInputAttributeDescription_bytes a =
     u8_bytes (attr_location a) @ u8_bytes (attr_binding a) @
     u16_bytes (attr_format a) @ u32_bytes (attr_offset a)"

definition VertexInputBindingDescription_bytes :: "VertexInputBindingDescription \<Rightarrow> u8 list" where
  "VertexInputBindingDescription_bytes b =
     u16_bytes (vb_binding b) @ u16_bytes (vb_inputRate b) @ u32_bytes (vb_stride b)"

definition SHADER_MODULE_COUNT :: nat where
  "SHADER_MODULE_COUNT = 2"

text \<open>
  \<^verbatim>\<open>VERTEX_ATTRIBUTE_COUNT\<close> names a constant declared elsewhere; the 128 bytes that the
  header notes for each of the two arrays of 8-byte descriptions make it 16.
\<close>

definition VERTEX_ATTRIBUTE_COUNT :: nat where
  "VERTEX_ATTRIBUTE_COUNT = 16"

definition PipelineKey_wf :: "PipelineKey \<Rightarrow> bool" where
  "PipelineKey_wf k \<longleftrightarrow>
     length (shaders k) = SHADER_MODULE_COUNT \<and>
     length (vertexAttributes k) = VERTEX_ATTRIBUTE_COUNT \<and>
     length (vertexBuffers k) = VERTEX_ATTRIBUTE_COUNT"

definition PipelineKey_bytes :: "PipelineKey \<Rightarrow> u8 list" where
  "PipelineKey_bytes k =
     concat (map u64_bytes (shaders k)) @
     u64_bytes (renderPass k) @
     u16_bytes (topology k) @
     u16_bytes (subpassIndex k) @
     concat (map VertexInputAttributeDescription_bytes (vertexAttributes k)) @
     concat (map VertexInputBindingDescription_bytes (vertexBuffers k)) @
     RasterState_bytes (rasterState k) @
     u32_bytes (pk_padding k) @
     u128_bytes (layout k)"

text \<open>
  Modelled from the spec: \<^verbatim>\<open>DescEqual::operator()\<close> is declared in the header and
  defined elsewhere. The spec has the key of a fixed layout with no implicit padding, safe
  to hash and compare as raw bytes, and the equality derived from the full byte image: the
  functor compares the byte images of the two keys, the padding of the sampler infos
  included. For keys whose arrays have their declared sizes, which are all the keys that the
  C++ type has, this is the equality of all the fields (\<open>DescEqual_iff\<close> below), the
  equality with which the map is read.
\<close>

definition DescEqual :: "DescriptorKey \<Rightarrow> DescriptorKey \<Rightarrow> bool" where
  "DescEqual k1 k2 \<longleftrightarrow> DescriptorKey_bytes k1 = DescriptorKey_bytes k2"

text \<open>
  Modelled from the spec: \<^verbatim>\<open>PipelineEqual::operator()\<close> is declared in
  \<^verbatim>\<open>VulkanPipelineCache.h\<close> and defined elsewhere; as for \<^const>\<open>DescEqual\<close>, the spec
  has the key compared byte-wise.
\<close>

definition PipelineEqual :: "PipelineKey \<Rightarrow> PipelineKey \<Rightarrow> bool" where
  "PipelineEqual k1 k2 \<longleftrightarrow> PipelineKey_bytes k1 = PipelineKey_bytes k2"

text \<open>
  Modelled from the spec: \<^verbatim>\<open>utils::hash::MurmurHashFn\<close> is used by the two headers and
  defined elsewhere. The spec has the hash derived from the full byte image of the key; how
  the bytes are mixed is not in the source at hand, so the mixing function is a parameter.
\<close>

definition MurmurHashFn :: "(u8 list \<Rightarrow> 'h) \<Rightarrow> ('k \<Rightarrow> u8 list) \<Rightarrow> 'k \<Rightarrow> 'h" where
  "MurmurHashFn murmur3 bytes_of key = murmur3 (bytes_of key)"

definition DescHashFn :: "(u8 list \<Rightarrow> 'h) \<Rightarrow> DescriptorKey \<Rightarrow> 'h" where
  "DescHashFn murmur3 = MurmurHashFn murmur3 DescriptorKey_bytes"

definition PipelineHashFn :: "(u8 list \<Rightarrow> 'h) \<Rightarrow> PipelineKey \<Rightarrow> 'h" where
  "PipelineHashFn murmur3 = MurmurHashFn murmur3 PipelineKey_bytes"

subsection \<open>Functions whose bodies are not in the source at hand\<close>

text \<open>
  Modelled from the spec: \<^verbatim>\<open>getOrCreatePipelineLayout\<close> is declared in
  \<^verbatim>\<open>VulkanPipelineCache.h\<close> and defined elsewhere. The spec has it return the entry of
  the required layout key, refreshing the time stamp of an entry it finds and creating the
  layout objects on a miss; the header has the three arenas of an entry created empty.
  The pointer it returns is the key \<open>layout (mPipelineRequirements s)\<close>.
\<close>

definition getOrCreatePipelineLayout :: "Externals \<Rightarrow> VulkanPipelineCache \<Rightarrow> VulkanPipelineCache" where
  "getOrCreatePipelineLayout x s =
     (let key = layout (mPipelineRequirements s) in
      case map_of (mPipelineLayouts s) key of
        Some entry \<Rightarrow>
          s\<lparr>mPipelineLayouts :=
               AList.map_entry key (\<lambda>e. e\<lparr>layoutLastUsed := mCurrentTime s\<rparr>) (mPipelineLayouts s)\<rparr>
      | None \<Rightarrow>
          s\<lparr>mPipelineLayouts := mPipelineLayouts s @
               [(key, \<lparr>handle = createdPipelineLayout x, layoutLastUsed = mCurrentTime s,
                       descriptorSetLayouts = createdSetLayouts x,
                       descriptorSetArenas = replicate DESCRIPTOR_TYPE_COUNT []\<rparr>)]\<rparr>)"

text \<open>
  Modelled from the spec: \<^verbatim>\<open>growDescriptorPool\<close> is declared in the header and defined
  elsewhere. The spec has growth replace the pool by a larger one and move the old pool,
  with all descriptor sets allocated from it, to the extinct lists; the header has all
  currently used descriptors moved into the extinct sets. So the active entries leave the
  map for the extinct bundles, and the dormant sets, which belong to the old pool as well,
  leave the arenas.
\<close>

definition growDescriptorPool :: "Externals \<Rightarrow> VulkanPipelineCache \<Rightarrow> VulkanPipelineCache" where
  "growDescriptorPool x s =
     s\<lparr>mExtinctDescriptorPools := mExtinctDescriptorPools s @ [mDescriptorPool s],
       mDescriptorPool := createdPool x,
       mDescriptorPoolSize := createdPoolSize x,
       mPipelineLayouts :=
         AList.map_ran
           (\<lambda>k e. e\<lparr>descriptorSetArenas := map (\<lambda>arena. []) (descriptorSetArenas e)\<rparr>)
           (mPipelineLayouts s),
       mDescriptorArenasCount := 0,
       mExtinctDescriptorBundles := mExtinctDescriptorBundles s @ map snd (mDescriptorSets s),
       mDescriptorSets := []\<rparr>"

text \<open>
  Modelled from the spec: \<^verbatim>\<open>VulkanAcquireOnlyResourceManager::acquireAll\<close> is defined
  elsewhere. The spec has it take over all the references tracked by another manager; a
  manager is the list of the resources it holds.
\<close>

definition acquireAll :: "VulkanResource list \<Rightarrow> VulkanResource list \<Rightarrow> VulkanResource list" where
  "acquireAll this srcResources = this @ srcResources"

subsection \<open>The write phase of \<^verbatim>\<open>createDescriptorSets\<close>\<close>

text \<open>
  The first loop gives every uniform-buffer binding one write: for a bound buffer the struct
  built in place, otherwise a copy of the dummy write; both then receive the destination
  set and binding.
\<close>

definition uniformBufferWrite ::
  "u32 \<Rightarrow> VkWriteDescriptorSet \<Rightarrow> DescriptorKey \<Rightarrow> VkDescriptorSet list \<Rightarrow> nat \<Rightarrow> VkWriteDescriptorSet" where
  "uniformBufferWrite whole dummy req hs binding =
     (if uniformBuffers req ! binding \<noteq> 0 then
        (let range0 = (ucast (uniformBufferSizes req ! binding) :: VkDeviceSize);
             bufferInfo =
               \<lparr>buffer = uniformBuffers req ! binding,
                offset = ucast (uniformBufferOffsets req ! binding),
                range_size = (if range0 = ucast whole then VK_WHOLE_SIZE else range0)\<rparr>
         in \<lparr>sType = VK_STRUCTURE_TYPE_WRITE_DESCRIPTOR_SET, pNext = 0,
             dstSet = hs ! 0, dstBinding = of_nat binding,
             dstArrayElement = 0, descriptorCount = 1,
             descriptorType = VK_DESCRIPTOR_TYPE_UNIFORM_BUFFER,
             pImageInfo = None, pBufferInfo = Some bufferInfo, pTexelBufferView = 0\<rparr>)
      else dummy\<lparr>dstSet := hs ! 0, dstBinding := of_nat binding\<rparr>)"

definition samplerWrite :: "DescriptorKey \<Rightarrow> VkDescriptorSet list \<Rightarrow> nat \<Rightarrow> VkWriteDescriptorSet" where
  "samplerWrite req hs binding =
     \<lparr>sType = VK_STRUCTURE_TYPE_WRITE_DESCRIPTOR_SET, pNext = 0,
      dstSet = hs ! 1, dstBinding = of_nat binding,
      dstArrayElement = 0, descriptorCount = 1,
      descriptorType = VK_DESCRIPTOR_TYPE_COMBINED_IMAGE_SAMPLER,
      pImageInfo = Some (to_VkDescriptorImageInfo (samplers req ! binding)),
      pBufferInfo = None, pTexelBufferView = 0\<rparr>"

definition inputAttachmentWrite :: "DescriptorKey \<Rightarrow> VkDescriptorSet list \<Rightarrow> nat \<Rightarrow> VkWriteDescriptorSet" where
  "inputAttachmentWrite req hs binding =
     \<lparr>sType = VK_STRUCTURE_TYPE_WRITE_DESCRIPTOR_SET, pNext = 0,
      dstSet = hs ! 2, dstBinding = of_nat binding,
      dstArrayElement = 0, descriptorCount = 1,
      descriptorType = VK_DESCRIPTOR_TYPE_INPUT_ATTACHMENT,
      pImageInfo = Some (to_VkDescriptorImageInfo (inputAttachments req ! binding)),
      pBufferInfo = None, pTexelBufferView = 0\<rparr>"

text \<open>
  The three loops fill the array \<^verbatim>\<open>writes\<close> front to back; the second and the third
  advance \<^verbatim>\<open>nwrites\<close> only for a binding whose sampler, respectively image view,
  is not null.
\<close>

definition uniformBufferWrites ::
  "u32 \<Rightarrow> VkWriteDescriptorSet \<Rightarrow> DescriptorKey \<Rightarrow> VkDescriptorSet list \<Rightarrow> VkWriteDescriptorSet list" where
  "uniformBufferWrites whole dummy req hs =
     map (uniformBufferWrite whole dummy req hs) [0..<UBUFFER_BINDING_COUNT]"

definition samplerWrites :: "DescriptorKey \<Rightarrow> VkDescriptorSet list \<Rightarrow> VkWriteDescriptorSet list" where
  "samplerWrites req hs =
     map (samplerWrite req hs)
       (filter (\<lambda>binding. sampler (samplers req ! binding) \<noteq> 0) [0..<SAMPLER_BINDING_COUNT])"

definition inputAttachmentWrites :: "DescriptorKey \<Rightarrow> VkDescriptorSet list \<Rightarrow> VkWriteDescriptorSet list" where
  "inputAttachmentWrites req hs =
     map (inputAttachmentWrite req hs)
       (filter (\<lambda>binding. imageView (inputAttachments req ! binding) \<noteq> 0) [0..<INPUT_ATTACHMENT_COUNT])"

definition descriptorWrites ::
  "u32 \<Rightarrow> VkWriteDescriptorSet \<Rightarrow> DescriptorKey \<Rightarrow> VkDescriptorSet list \<Rightarrow> VkWriteDescriptorSet list" where
  "descriptorWrites whole dummy req hs =
     uniformBufferWrites whole dummy req hs @ samplerWrites req hs @ inputAttachmentWrites req hs"

subsection \<open>\<^verbatim>\<open>createDescriptorSets\<close>\<close>

text \<open>
  \<^verbatim>\<open>robin_map::emplace\<close> inserts only where the key has no entry yet; either way the
  entry of the key is the one it returns.
\<close>

definition emplace :: "'k \<Rightarrow> 'v \<Rightarrow> ('k \<times> 'v) list \<Rightarrow> ('k \<times> 'v) list" where
  "emplace k v m = (case map_of m k of None \<Rightarrow> m @ [(k, v)] | Some old \<Rightarrow> m)"

text \<open>
  The loop of the reuse branch, over the indices \<open>i\<close> of the arenas: the handle \<open>i\<close> of the
  new entry becomes the back of arena \<open>i\<close>, which is popped. \<^verbatim>\<open>back\<close> and
  \<^verbatim>\<open>pop_back\<close> are undefined on an empty vector.
\<close>

fun reclaimDescriptorSets ::
  "nat list \<Rightarrow> VkDescriptorSet list \<Rightarrow> VkDescriptorSet list list \<Rightarrow>
   Fault + (VkDescriptorSet list \<times> VkDescriptorSet list list)" where
  "reclaimDescriptorSets [] hs arenas = Inr (hs, arenas)"
| "reclaimDescriptorSets (i # rest) hs arenas =
     (if arenas ! i = [] then Inl BackOfEmptyVector
      else reclaimDescriptorSets rest (hs[i := last (arenas ! i)]) (arenas[i := butlast (arenas ! i)]))"

text \<open>
  The end of the function, from the write phase on: one batched update with all the writes,
  then the entry goes into the map under the required key, and the pointer to it is
  returned.
\<close>

definition updateAndEmplace ::
  "Externals \<Rightarrow> VulkanPipelineCache \<Rightarrow> DescriptorCacheEntry \<Rightarrow> Call list \<Rightarrow> (DescriptorKey option) Result" where
  "updateAndEmplace x s descriptorCacheEntry calls =
     (let writes = descriptorWrites (WHOLE_SIZE x) (mDummyBufferWriteInfo s)
                     (mDescriptorRequirements s) (handles descriptorCacheEntry)
      in Inr (Some (mDescriptorRequirements s),
              s\<lparr>mDescriptorSets :=
                   emplace (mDescriptorRequirements s) descriptorCacheEntry (mDescriptorSets s)\<rparr>,
              calls @ [Call_vkUpdateDescriptorSets writes]))"

text \<open>
  The size of the map is a \<^verbatim>\<open>size_t\<close>, to which the two 32-bit counters are converted
  before the comparison: the sum does not wrap.
\<close>

definition poolWouldOverflow :: "VulkanPipelineCache \<Rightarrow> bool" where
  "poolWouldOverflow s \<longleftrightarrow>
     length (mDescriptorSets s) + unat (mDescriptorArenasCount s) + 1 > unat (mDescriptorPoolSize s)"

definition createDescriptorSets :: "Externals \<Rightarrow> VulkanPipelineCache \<Rightarrow> (DescriptorKey option) Result" where
  "createDescriptorSets x s0 =
     (let s1 = getOrCreatePipelineLayout x s0;
          layoutCacheEntry = layout (mPipelineRequirements s1);
          descriptorCacheEntry =
            \<lparr>handles = replicate DESCRIPTOR_TYPE_COUNT 0, lastUsed = 0,
             pipelineLayout = layout (mPipelineRequirements s1),
             id_entry = mDescriptorCacheEntryCount s1\<rparr>;
          s2 = s1\<lparr>mDescriptorCacheEntryCount := mDescriptorCacheEntryCount s1 + 1\<rparr>
      in case map_of (mPipelineLayouts s2) layoutCacheEntry of
           None \<Rightarrow> Inl DanglingEntryPointer
         | Some entry \<Rightarrow>
             if descriptorSetArenas entry ! 0 = [] then
               (let s3 = (if poolWouldOverflow s2 then growDescriptorPool x s2 else s2);
                    grown = (if poolWouldOverflow s2 then [Call_growDescriptorPool] else [])
                in case map_of (mPipelineLayouts s3) layoutCacheEntry of
                     None \<Rightarrow> Inl DanglingEntryPointer
                   | Some entry3 \<Rightarrow>
                       (let calls = grown @
                              [Call_vkAllocateDescriptorSets (mDescriptorPool s3)
                                 DESCRIPTOR_TYPE_COUNT (descriptorSetLayouts entry3)]
                        in if allocationResult x \<noteq> VK_SUCCESS then Inr (None, s3, calls)
                           else updateAndEmplace x s3
                                  (descriptorCacheEntry
                                     \<lparr>handles := map (allocatedSets x) [0..<DESCRIPTOR_TYPE_COUNT]\<rparr>)
                                  calls))
             else
               (case reclaimDescriptorSets [0..<DESCRIPTOR_TYPE_COUNT]
                       (handles descriptorCacheEntry) (descriptorSetArenas entry) of
                  Inl fault \<Rightarrow> Inl fault
                | Inr (hs, arenas) \<Rightarrow>
                    (let s3 = s2\<lparr>mPipelineLayouts :=
                                   AList.map_entry layoutCacheEntry
                                     (\<lambda>e. e\<lparr>descriptorSetArenas := arenas\<rparr>) (mPipelineLayouts s2),
                                 mDescriptorArenasCount := mDescriptorArenasCount s2 - 1\<rparr>
                     in updateAndEmplace x s3 (descriptorCacheEntry\<lparr>handles := hs\<rparr>) [])))"

subsection \<open>\<^verbatim>\<open>bindDescriptors\<close>\<close>

text \<open>
  Writing \<^verbatim>\<open>lastUsed\<close> through an iterator or a pointer to an entry of the map.
\<close>

definition touch :: "DescriptorKey \<Rightarrow> Timestamp \<Rightarrow> (DescriptorKey \<times> DescriptorCacheEntry) list \<Rightarrow> (DescriptorKey \<times> DescriptorCacheEntry) list" where
  "touch k t m = AList.map_entry k (\<lambda>e. e\<lparr>lastUsed := t\<rparr>) m"

text \<open>
  The part after the null check: the time stamp, the bound key, the tracker of the entry's
  id (made on first use) acquiring the resources bound to the pipeline, and the bind call
  with the handle of the pipeline layout.
\<close>

definition bindCacheEntry ::
  "Externals \<Rightarrow> VkCommandBuffer \<Rightarrow> DescriptorKey \<Rightarrow> VulkanPipelineCache \<Rightarrow> Call list \<Rightarrow> bool Result" where
  "bindCacheEntry x cmdbuffer cacheEntry s1 calls =
     (let s2 = s1\<lparr>mDescriptorSets := touch cacheEntry (mCurrentTime s1) (mDescriptorSets s1)\<rparr>;
          s3 = s2\<lparr>mBoundDescriptor := mDescriptorRequirements s2\<rparr>
      in case map_of (mDescriptorSets s3) cacheEntry of
           None \<Rightarrow> Inl DanglingEntryPointer
         | Some entry \<Rightarrow>
             (let s4 = (case map_of (mDescriptorResources s3) (id_entry entry) of
                          None \<Rightarrow> s3\<lparr>mDescriptorResources :=
                                      AList.update (id_entry entry) [] (mDescriptorResources s3)\<rparr>
                        | Some tracker \<Rightarrow> s3);
                  s5 = s4\<lparr>mDescriptorResources :=
                             AList.map_entry (id_entry entry)
                               (\<lambda>tracker. acquireAll tracker (mPipelineBoundResources s4))
                               (mDescriptorResources s4)\<rparr>;
                  s6 = getOrCreatePipelineLayout x s5
              in case map_of (mPipelineLayouts s6) (layout (mPipelineRequirements s6)) of
                   None \<Rightarrow> Inl DanglingEntryPointer
                 | Some layoutEntry \<Rightarrow>
                     Inr (True, s6,
                          calls @
                          [Call_acquireAll (id_entry entry) (mPipelineBoundResources s4),
                           Call_vkCmdBindDescriptorSets cmdbuffer (handle layoutEntry) (handles entry)])))"

definition bindDescriptors :: "Externals \<Rightarrow> VkCommandBuffer \<Rightarrow> VulkanPipelineCache \<Rightarrow> bool Result" where
  "bindDescriptors x cmdbuffer s =
     (let descriptorIter = map_of (mDescriptorSets s) (mDescriptorRequirements s) in
      if DescEqual (mBoundDescriptor s) (mDescriptorRequirements s) \<and> mDescriptorSets s \<noteq> [] then
        (case descriptorIter of
           None \<Rightarrow> Inl EndIteratorDereferenced
         | Some entry \<Rightarrow>
             Inr (True,
                  s\<lparr>mDescriptorSets :=
                       touch (mDescriptorRequirements s) (mCurrentTime s) (mDescriptorSets s)\<rparr>,
                  []))
      else
        (case (case descriptorIter of
                 Some entry \<Rightarrow> Inr (Some (mDescriptorRequirements s), s, [])
               | None \<Rightarrow> createDescriptorSets x s) of
           Inl fault \<Rightarrow> Inl fault
         | Inr (None, s1, calls) \<Rightarrow> Inr (False, s1, calls)
         | Inr (Some cacheEntry, s1, calls) \<Rightarrow> bindCacheEntry x cmdbuffer cacheEntry s1 calls))"

section \<open>Observations, invariants and example states\<close>

subsection \<open>Observations\<close>

text \<open>
  The entry of the required layout as \<^verbatim>\<open>createDescriptorSets\<close> sees it through the
  pointer that \<^verbatim>\<open>getOrCreatePipelineLayout\<close> returns.
\<close>

definition owningLayout :: "Externals \<Rightarrow> VulkanPipelineCache \<Rightarrow> PipelineLayoutCacheEntry option" where
  "owningLayout x s =
     map_of (mPipelineLayouts (getOrCreatePipelineLayout x s)) (layout (mPipelineRequirements s))"

definition firstArenaEmpty :: "Externals \<Rightarrow> VulkanPipelineCache \<Rightarrow> bool" where
  "firstArenaEmpty x s \<longleftrightarrow>
     (case owningLayout x s of None \<Rightarrow> False | Some entry \<Rightarrow> descriptorSetArenas entry ! 0 = [])"

text \<open>The three components of a result; a fault has none of them.\<close>

definition returned :: "'a Result \<Rightarrow> 'a option" where
  "returned r = (case r of Inl fault \<Rightarrow> None | Inr (v, s, calls) \<Rightarrow> Some v)"

definition stateOf :: "'a Result \<Rightarrow> VulkanPipelineCache option" where
  "stateOf r = (case r of Inl fault \<Rightarrow> None | Inr (v, s, calls) \<Rightarrow> Some s)"

definition callsOf :: "'a Result \<Rightarrow> Call list" where
  "callsOf r = (case r of Inl fault \<Rightarrow> [] | Inr (v, s, calls) \<Rightarrow> calls)"

text \<open>The arrays of writes handed to \<^verbatim>\<open>vkUpdateDescriptorSets\<close>, one per call, in order.\<close>

fun updatesOf :: "Call list \<Rightarrow> VkWriteDescriptorSet list list" where
  "updatesOf [] = []"
| "updatesOf (Call_vkUpdateDescriptorSets writes # calls) = writes # updatesOf calls"
| "updatesOf (call # calls) = updatesOf calls"

text \<open>The slot a write goes to: its destination set and binding.\<close>

definition slotOf :: "VkWriteDescriptorSet \<Rightarrow> VkDescriptorSet \<times> u32" where
  "slotOf w = (dstSet w, dstBinding w)"

text \<open>The condition of the early return of \<^verbatim>\<open>bindDescriptors\<close>.\<close>

definition alreadyBound :: "VulkanPipelineCache \<Rightarrow> bool" where
  "alreadyBound s \<longleftrightarrow>
     DescEqual (mBoundDescriptor s) (mDescriptorRequirements s) \<and> mDescriptorSets s \<noteq> []"

text \<open>
  What two keys bind, their padding left aside: the sampler infos are compared as the
  Vulkan structs that their conversion operator gives. A key is zero-padded when the
  padding of all its infos is zero, as in a zero-initialised key and in every info written
  by the assignment operator.
\<close>

definition zeroPadded :: "DescriptorKey \<Rightarrow> bool" where
  "zeroPadded k \<longleftrightarrow> list_all (\<lambda>info. padding info = 0) (samplers k @ inputAttachments k)"

definition sameBindings :: "DescriptorKey \<Rightarrow> DescriptorKey \<Rightarrow> bool" where
  "sameBindings k1 k2 \<longleftrightarrow>
     uniformBuffers k1 = uniformBuffers k2 \<and>
     map to_VkDescriptorImageInfo (samplers k1) = map to_VkDescriptorImageInfo (samplers k2) \<and>
     map to_VkDescriptorImageInfo (inputAttachments k1) =
       map to_VkDescriptorImageInfo (inputAttachments k2) \<and>
     uniformBufferOffsets k1 = uniformBufferOffsets k2 \<and>
     uniformBufferSizes k1 = uniformBufferSizes k2"

definition samePipelineState :: "PipelineKey \<Rightarrow> PipelineKey \<Rightarrow> bool" where
  "samePipelineState k1 k2 \<longleftrightarrow>
     shaders k1 = shaders k2 \<and> renderPass k1 = renderPass k2 \<and>
     topology k1 = topology k2 \<and> subpassIndex k1 = subpassIndex k2 \<and>
     vertexAttributes k1 = vertexAttributes k2 \<and> vertexBuffers k1 = vertexBuffers k2 \<and>
     rasterState k1 = rasterState k2 \<and> layout k1 = layout k2"

subsection \<open>Invariants\<close>

text \<open>
  What \<^verbatim>\<open>bindDescriptors\<close> asserts before its early return: descriptors that are
  already bound are found in the cache.
\<close>

definition boundIsCached :: "VulkanPipelineCache \<Rightarrow> bool" where
  "boundIsCached s \<longleftrightarrow>
     (DescEqual (mBoundDescriptor s) (mDescriptorRequirements s) \<and> mDescriptorSets s \<noteq> [] \<longrightarrow>
        map_of (mDescriptorSets s) (mDescriptorRequirements s) \<noteq> None)"

text \<open>
  The arenas of a layout entry are balanced when there is one per descriptor type and all
  hold as many sets as the first; the cache keeps every layout entry so.
\<close>

definition arenasBalanced :: "PipelineLayoutCacheEntry \<Rightarrow> bool" where
  "arenasBalanced entry \<longleftrightarrow>
     length (descriptorSetArenas entry) = DESCRIPTOR_TYPE_COUNT \<and>
     list_all (\<lambda>arena. length arena = length (descriptorSetArenas entry ! 0)) (descriptorSetArenas entry)"

definition arenaInvariant :: "VulkanPipelineCache \<Rightarrow> bool" where
  "arenaInvariant s \<longleftrightarrow> list_all (\<lambda>(key, entry). arenasBalanced entry) (mPipelineLayouts s)"

text \<open>
  The descriptor cache entries the cache still holds, active or extinct, and the invariant
  of their ids: below the counter, and pairwise distinct.
\<close>

definition allDescriptorEntries :: "VulkanPipelineCache \<Rightarrow> DescriptorCacheEntry list" where
  "allDescriptorEntries s = map snd (mDescriptorSets s) @ mExtinctDescriptorBundles s"

definition idsFresh :: "u32 \<Rightarrow> DescriptorCacheEntry list \<Rightarrow> bool" where
  "idsFresh c es \<longleftrightarrow> list_all (\<lambda>e. id_entry e < c) es \<and> distinct (map id_entry es)"

definition idInvariant :: "VulkanPipelineCache \<Rightarrow> bool" where
  "idInvariant s \<longleftrightarrow> idsFresh (mDescriptorCacheEntryCount s) (allDescriptorEntries s)"

subsection \<open>Example states\<close>

text \<open>
  The zero-initialised key, and a key with the whole of one buffer bound to the first slot.
\<close>

definition zeroInfo :: DescriptorImageInfo where
  "zeroInfo = \<lparr>sampler = 0, imageView = 0, imageLayout = 0, padding = 0\<rparr>"

definition zeroKey :: DescriptorKey where
  "zeroKey =
     \<lparr>uniformBuffers = replicate UBUFFER_BINDING_COUNT 0,
      samplers = replicate SAMPLER_BINDING_COUNT zeroInfo,
      inputAttachments = replicate INPUT_ATTACHMENT_COUNT zeroInfo,
      uniformBufferOffsets = replicate UBUFFER_BINDING_COUNT 0,
      uniformBufferSizes = replicate UBUFFER_BINDING_COUNT 0\<rparr>"

definition exampleKey :: "VkBuffer \<Rightarrow> DescriptorKey" where
  "exampleKey b =
     zeroKey\<lparr>uniformBuffers := b # replicate 9 0,
             uniformBufferSizes := 0xFFFFFFFF # replicate 9 0\<rparr>"

text \<open>The same key with a texture bound to the first sampler slot as well.\<close>

definition texturedKey :: DescriptorKey where
  "texturedKey =
     (exampleKey 9)
       \<lparr>samplers := \<lparr>sampler = 7, imageView = 8, imageLayout = 5, padding = 0\<rparr> #
                    replicate 61 zeroInfo\<rparr>"

text \<open>The zero key but for the padding of its first sampler info.\<close>

definition paddedKey :: DescriptorKey where
  "paddedKey = zeroKey\<lparr>samplers := zeroInfo\<lparr>padding := 1\<rparr> # replicate 61 zeroInfo\<rparr>"

definition zeroRasterState :: RasterState where
  "zeroRasterState =
     \<lparr>cullMode = 0, frontFace = 0, depthBiasEnable = 0, blendEnable = 0, depthWriteEnable = 0,
      alphaToCoverageEnable = 0, srcColorBlendFactor = 0, dstColorBlendFactor = 0,
      srcAlphaBlendFactor = 0, dstAlphaBlendFactor = 0, colorWriteMask = 0,
      rasterizationSamples = 0, colorTargetCount = 0, colorBlendOp = 0, alphaBlendOp = 0,
      depthCompareOp = 0, depthBiasConstantFactor = 0, depthBiasSlopeFactor = 0\<rparr>"

definition zeroPipelineKey :: PipelineKey where
  "zeroPipelineKey =
     \<lparr>shaders = replicate 2 0, renderPass = 0, topology = 0, subpassIndex = 0,
      vertexAttributes =
        replicate 16 \<lparr>attr_location = 0, attr_binding = 0, attr_format = 0, attr_offset = 0\<rparr>,
      vertexBuffers = replicate 16 \<lparr>vb_binding = 0, vb_inputRate = 0, vb_stride = 0\<rparr>,
      rasterState = zeroRasterState, pk_padding = 0, layout = 0\<rparr>"

text \<open>A dummy write as a constructor would prepare it: one uniform buffer, the placeholder 99.\<close>

definition exampleDummyWrite :: VkWriteDescriptorSet where
  "exampleDummyWrite =
     \<lparr>sType = VK_STRUCTURE_TYPE_WRITE_DESCRIPTOR_SET, pNext = 0, dstSet = 0, dstBinding = 0,
      dstArrayElement = 0, descriptorCount = 1,
      descriptorType = VK_DESCRIPTOR_TYPE_UNIFORM_BUFFER, pImageInfo = None,
      pBufferInfo = Some \<lparr>buffer = 99, offset = 0, range_size = VK_WHOLE_SIZE\<rparr>,
      pTexelBufferView = 0\<rparr>"

text \<open>A driver that answers the allocation with the given result and the sets 100, 101, 102.\<close>

definition exampleDriver :: "VkResult \<Rightarrow> Externals" where
  "exampleDriver result =
     \<lparr>WHOLE_SIZE = 0xFFFFFFFF, allocationResult = result,
      allocatedSets = (\<lambda>i. 100 + of_nat i), createdPool = 2, createdPoolSize = 1024,
      createdPipelineLayout = 50, createdSetLayouts = [51, 52, 53]\<rparr>"

text \<open>The cache after construction: empty maps, the initial pool, zeroed keys.\<close>

definition freshCache :: VulkanPipelineCache where
  "freshCache =
     \<lparr>mPipelineLayouts = [], mPipelineRequirements = zeroPipelineKey, mCurrentTime = 0,
      mPipelineBoundResources = [], mDescriptorCacheEntryCount = 0, mDescriptorSets = [],
      mDescriptorResources = [], mDescriptorPoolSize = INITIAL_DESCRIPTOR_SET_POOL_SIZE,
      mDescriptorArenasCount = 0, mDescriptorPool = 1, mExtinctDescriptorPools = [],
      mExtinctDescriptorBundles = [], mDummyBufferWriteInfo = exampleDummyWrite,
      mDescriptorRequirements = zeroKey, mBoundDescriptor = zeroKey\<rparr>"

definition exampleLayout :: "VkDescriptorSet list list \<Rightarrow> PipelineLayoutCacheEntry" where
  "exampleLayout arenas =
     \<lparr>handle = 50, layoutLastUsed = 0, descriptorSetLayouts = [51, 52, 53],
      descriptorSetArenas = arenas\<rparr>"

definition exampleEntry :: "u32 \<Rightarrow> VkDescriptorSet list \<Rightarrow> DescriptorCacheEntry" where
  "exampleEntry i hs = \<lparr>handles = hs, lastUsed = 0, pipelineLayout = 0, id_entry = i\<rparr>"

text \<open>The cache after the first bind, with the zero key bound, at a later time.\<close>

definition boundCache :: VulkanPipelineCache where
  "boundCache =
     freshCache
       \<lparr>mPipelineLayouts := [(0, exampleLayout [[], [], []])],
        mCurrentTime := 3,
        mPipelineBoundResources := [5],
        mDescriptorCacheEntryCount := 1,
        mDescriptorSets := [(zeroKey, exampleEntry 0 [100, 101, 102])],
        mDescriptorResources := [(0, [])]\<rparr>"

text \<open>
  A cache whose only entry is for another key than the bound one, which is the required
  one: the zero key is bound and required again, and its entry has left the map.
\<close>

definition staleCache :: VulkanPipelineCache where
  "staleCache = boundCache\<lparr>mDescriptorSets := [(exampleKey 9, exampleEntry 0 [100, 101, 102])]\<rparr>"

text \<open>
  A cache at the capacity of its pool: one active entry, for a key other than the required
  one, and 511 dormant bundles in the arenas of another layout than the required one.
\<close>

definition crowdedCache :: VulkanPipelineCache where
  "crowdedCache =
     freshCache
       \<lparr>mPipelineLayouts :=
          [(0, exampleLayout [[], [], []]),
           (1, exampleLayout (replicate 3 (map of_nat [1000..<1511])))],
        mDescriptorCacheEntryCount := 512,
        mDescriptorSets := [(exampleKey 9, exampleEntry 511 [100, 101, 102])],
        mDescriptorResources := [(511, [])],
        mDescriptorArenasCount := 511,
        mBoundDescriptor := exampleKey 9\<rparr>"

text \<open>A cache with one dormant bundle in the arenas of the required layout.\<close>

definition reuseCache :: VulkanPipelineCache where
  "reuseCache =
     freshCache
       \<lparr>mPipelineLayouts := [(0, exampleLayout [[200], [201], [202]])],
        mDescriptorCacheEntryCount := 1,
        mDescriptorArenasCount := 1,
        mBoundDescriptor := exampleKey 9\<rparr>"

section \<open>Auxiliary facts\<close>

text \<open>Unfolding a list of a given numeral length, for evaluation.\<close>

lemma replicate_numeral: "replicate (numeral k) x = x # replicate (pred_numeral k) x"
  by (simp add: numeral_eq_Suc)



lemma getOrCreatePipelineLayout_frame:
  "mPipelineRequirements (getOrCreatePipelineLayout x s) = mPipelineRequirements s"
  "mCurrentTime (getOrCreatePipelineLayout x s) = mCurrentTime s"
  "mPipelineBoundResources (getOrCreatePipelineLayout x s) = mPipelineBoundResources s"
  "mDescriptorCacheEntryCount (getOrCreatePipelineLayout x s) = mDescriptorCacheEntryCount s"
  "mDescriptorSets (getOrCreatePipelineLayout x s) = mDescriptorSets s"
  "mDescriptorResources (getOrCreatePipelineLayout x s) = mDescriptorResources s"
  "mDescriptorPoolSize (getOrCreatePipelineLayout x s) = mDescriptorPoolSize s"
  "mDescriptorArenasCount (getOrCreatePipelineLayout x s) = mDescriptorArenasCount s"
  "mDescriptorPool (getOrCreatePipelineLayout x s) = mDescriptorPool s"
  "mExtinctDescriptorPools (getOrCreatePipelineLayout x s) = mExtinctDescriptorPools s"
  "mExtinctDescriptorBundles (getOrCreatePipelineLayout x s) = mExtinctDescriptorBundles s"
  "mDummyBufferWriteInfo (getOrCreatePipelineLayout x s) = mDummyBufferWriteInfo s"
  "mDescriptorRequirements (getOrCreatePipelineLayout x s) = mDescriptorRequirements s"
  "mBoundDescriptor (getOrCreatePipelineLayout x s) = mBoundDescriptor s"
  by (simp_all add: getOrCreatePipelineLayout_def Let_def split: option.split)

lemma map_of_map_entry_same:
  "map_of (AList.map_entry k f m) k = map_option f (map_of m k)"
  by (simp add: map_of_map_entry split: option.split)

lemma map_of_map_entry_other:
  "k' \<noteq> k \<Longrightarrow> map_of (AList.map_entry k f m) k' = map_of m k'"
  by (simp add: map_of_map_entry split: option.split)

lemma map_of_snoc:
  "map_of (m @ [(k, v)]) k' =
     (case map_of m k' of Some y \<Rightarrow> Some y | None \<Rightarrow> if k' = k then Some v else None)"
  by (simp add: map_add_def split: option.split)

lemma owningLayout_cases:
  "owningLayout x s =
     (case map_of (mPipelineLayouts s) (layout (mPipelineRequirements s)) of
        Some e \<Rightarrow> Some (e\<lparr>layoutLastUsed := mCurrentTime s\<rparr>)
      | None \<Rightarrow> Some \<lparr>handle = createdPipelineLayout x, layoutLastUsed = mCurrentTime s,
                       descriptorSetLayouts = createdSetLayouts x,
                       descriptorSetArenas = replicate DESCRIPTOR_TYPE_COUNT []\<rparr>)"
  by (simp add: owningLayout_def getOrCreatePipelineLayout_def Let_def map_of_map_entry_same
      map_of_snoc del: map_of_append split: option.split)

lemma owningLayout_Some: "\<exists>e. owningLayout x s = Some e"
  by (simp add: owningLayout_cases split: option.split)

lemma poolWouldOverflow_getOrCreate:
  "poolWouldOverflow (getOrCreatePipelineLayout x s\<lparr>mDescriptorCacheEntryCount := c\<rparr>) = poolWouldOverflow s"
  by (simp add: poolWouldOverflow_def getOrCreatePipelineLayout_frame)

lemma map_of_growDescriptorPool:
  "map_of (mPipelineLayouts (growDescriptorPool x s)) k =
     map_option (\<lambda>e. e\<lparr>descriptorSetArenas := map (\<lambda>arena. []) (descriptorSetArenas e)\<rparr>)
       (map_of (mPipelineLayouts s) k)"
  by (simp add: growDescriptorPool_def map_ran_conv)

text \<open>The fresh-allocation branch, as one equation.\<close>

lemma createDescriptorSets_fresh:
  assumes "owningLayout x s = Some entry" and "descriptorSetArenas entry ! 0 = []"
  shows "createDescriptorSets x s =
     (let s2 = (getOrCreatePipelineLayout x s)\<lparr>mDescriptorCacheEntryCount := mDescriptorCacheEntryCount s + 1\<rparr>;
          s3 = (if poolWouldOverflow s then growDescriptorPool x s2 else s2);
          calls = (if poolWouldOverflow s then [Call_growDescriptorPool] else []) @
                  [Call_vkAllocateDescriptorSets (mDescriptorPool s3) DESCRIPTOR_TYPE_COUNT (descriptorSetLayouts entry)]
      in if allocationResult x \<noteq> VK_SUCCESS then Inr (None, s3, calls)
         else updateAndEmplace x s3
                \<lparr>handles = map (allocatedSets x) [0..<DESCRIPTOR_TYPE_COUNT], lastUsed = 0,
                 pipelineLayout = layout (mPipelineRequirements s),
                 id_entry = mDescriptorCacheEntryCount s\<rparr> calls)"
  using assms
  by (simp add: createDescriptorSets_def Let_def owningLayout_def getOrCreatePipelineLayout_frame
      poolWouldOverflow_getOrCreate map_of_growDescriptorPool)

lemma createDescriptorSets_reuse:
  assumes "owningLayout x s = Some entry" and "descriptorSetArenas entry ! 0 \<noteq> []"
  shows "createDescriptorSets x s =
     (case reclaimDescriptorSets [0..<DESCRIPTOR_TYPE_COUNT]
             (replicate DESCRIPTOR_TYPE_COUNT 0) (descriptorSetArenas entry) of
        Inl fault \<Rightarrow> Inl fault
      | Inr (hs, arenas) \<Rightarrow>
          updateAndEmplace x
            ((getOrCreatePipelineLayout x s)
               \<lparr>mDescriptorCacheEntryCount := mDescriptorCacheEntryCount s + 1,
                mPipelineLayouts :=
                  AList.map_entry (layout (mPipelineRequirements s))
                    (\<lambda>e. e\<lparr>descriptorSetArenas := arenas\<rparr>)
                    (mPipelineLayouts (getOrCreatePipelineLayout x s)),
                mDescriptorArenasCount := mDescriptorArenasCount s - 1\<rparr>)
            \<lparr>handles = hs, lastUsed = 0, pipelineLayout = layout (mPipelineRequirements s),
             id_entry = mDescriptorCacheEntryCount s\<rparr> [])"
  using assms
  by (simp add: createDescriptorSets_def Let_def owningLayout_def getOrCreatePipelineLayout_frame
      split: sum.split)

lemma reclaimDescriptorSets_three:
  assumes "length arenas = DESCRIPTOR_TYPE_COUNT" and "length hs = DESCRIPTOR_TYPE_COUNT"
  shows "reclaimDescriptorSets [0..<DESCRIPTOR_TYPE_COUNT] hs arenas =
           (if \<forall>a \<in> set arenas. a \<noteq> [] then Inr (map last arenas, map butlast arenas)
            else Inl BackOfEmptyVector)"
proof -
  from assms(1) obtain a0 a1 a2 where a: "arenas = [a0, a1, a2]"
    by (auto simp: DESCRIPTOR_TYPE_COUNT_def numeral_3_eq_3 length_Suc_conv)
  from assms(2) obtain h0 h1 h2 where h: "hs = [h0, h1, h2]"
    by (auto simp: DESCRIPTOR_TYPE_COUNT_def numeral_3_eq_3 length_Suc_conv)
  have u: "[0..<DESCRIPTOR_TYPE_COUNT] = [0, 1, 2]"
    by (simp add: DESCRIPTOR_TYPE_COUNT_def upt_rec)
  show ?thesis
    unfolding u a h by simp
qed

lemma list_all_map_entry:
  "list_all (\<lambda>(k, v). P v) m \<Longrightarrow> (\<And>v. P v \<Longrightarrow> P (f v)) \<Longrightarrow>
   list_all (\<lambda>(k, v). P v) (AList.map_entry key f m)"
  by (induction m) auto

lemma list_all_map_of:
  "list_all (\<lambda>(k, v). P v) m \<Longrightarrow> map_of m key = Some v \<Longrightarrow> P v"
  by (induction m) (auto split: if_splits)

lemma arenasBalanced_fresh:
  "arenasBalanced \<lparr>handle = h, layoutLastUsed = t, descriptorSetLayouts = ls,
                   descriptorSetArenas = replicate DESCRIPTOR_TYPE_COUNT []\<rparr>"
  by (simp add: arenasBalanced_def DESCRIPTOR_TYPE_COUNT_def list_all_iff)

lemma arenaInvariant_getOrCreate:
  assumes "arenaInvariant s"
  shows "arenaInvariant (getOrCreatePipelineLayout x s)"
proof (cases "map_of (mPipelineLayouts s) (layout (mPipelineRequirements s))")
  case None
  then show ?thesis
    using assms by (simp add: arenaInvariant_def getOrCreatePipelineLayout_def arenasBalanced_fresh)
next
  case (Some e)
  have "list_all (\<lambda>(k, v). arenasBalanced v)
          (AList.map_entry (layout (mPipelineRequirements s))
             (\<lambda>e. e\<lparr>layoutLastUsed := mCurrentTime s\<rparr>) (mPipelineLayouts s))"
    using assms unfolding arenaInvariant_def
    by (rule list_all_map_entry) (simp add: arenasBalanced_def)
  then show ?thesis
    using Some by (simp add: arenaInvariant_def getOrCreatePipelineLayout_def)
qed

lemma arenasBalanced_cleared:
  assumes "arenasBalanced e"
  shows "arenasBalanced (e\<lparr>descriptorSetArenas := map (\<lambda>arena. []) (descriptorSetArenas e)\<rparr>)"
proof -
  have len: "length (descriptorSetArenas e) = DESCRIPTOR_TYPE_COUNT"
    using assms by (simp add: arenasBalanced_def)
  then show ?thesis
    by (simp add: arenasBalanced_def list_all_iff DESCRIPTOR_TYPE_COUNT_def)
qed

lemma arenaInvariant_grow:
  assumes "arenaInvariant s"
  shows "arenaInvariant (growDescriptorPool x s)"
proof -
  have "list_all (\<lambda>(k, v). arenasBalanced v) m \<Longrightarrow>
        list_all (\<lambda>(k, v). arenasBalanced v)
          (AList.map_ran (\<lambda>k e. e\<lparr>descriptorSetArenas := map (\<lambda>arena. []) (descriptorSetArenas e)\<rparr>) m)"
    for m :: "(PipelineLayoutKey \<times> PipelineLayoutCacheEntry) list"
    by (induction m) (auto intro: arenasBalanced_cleared)
  then show ?thesis
    using assms by (simp add: arenaInvariant_def growDescriptorPool_def)
qed

lemma arenasBalanced_popped:
  assumes "arenasBalanced e"
  shows "arenasBalanced (e\<lparr>descriptorSetArenas := map butlast (descriptorSetArenas e)\<rparr>)"
proof -
  have len: "length (descriptorSetArenas e) = DESCRIPTOR_TYPE_COUNT"
    and same: "\<And>a. a \<in> set (descriptorSetArenas e) \<Longrightarrow>
                 length a = length (descriptorSetArenas e ! 0)"
    using assms by (simp_all add: arenasBalanced_def list_all_iff)
  from len have "0 < length (descriptorSetArenas e)"
    by (simp add: DESCRIPTOR_TYPE_COUNT_def)
  then have z: "map butlast (descriptorSetArenas e) ! 0 = butlast (descriptorSetArenas e ! 0)"
    by (rule nth_map)
  show ?thesis
    using len same by (simp add: arenasBalanced_def list_all_iff z)
qed

lemma arenasBalanced_nonempty:
  assumes "arenasBalanced e" and "descriptorSetArenas e ! 0 \<noteq> []"
  shows "\<forall>a \<in> set (descriptorSetArenas e). a \<noteq> []"
proof
  fix a assume "a \<in> set (descriptorSetArenas e)"
  then have "length a = length (descriptorSetArenas e ! 0)"
    using assms(1) by (simp add: arenasBalanced_def list_all_iff)
  with assms(2) show "a \<noteq> []" by auto
qed

lemma arenasBalanced_all_empty:
  assumes "arenasBalanced e" and "descriptorSetArenas e ! 0 = []"
  shows "map (\<lambda>arena. []) (descriptorSetArenas e) = descriptorSetArenas e"
proof (rule map_idI)
  fix a assume "a \<in> set (descriptorSetArenas e)"
  then have "length a = length (descriptorSetArenas e ! 0)"
    using assms(1) by (simp add: arenasBalanced_def list_all_iff)
  with assms(2) show "[] = a" by simp
qed

lemma updateAndEmplace_eq:
  "updateAndEmplace x s e calls =
     Inr (Some (mDescriptorRequirements s),
          s\<lparr>mDescriptorSets := emplace (mDescriptorRequirements s) e (mDescriptorSets s)\<rparr>,
          calls @ [Call_vkUpdateDescriptorSets
             (descriptorWrites (WHOLE_SIZE x) (mDummyBufferWriteInfo s) (mDescriptorRequirements s) (handles e))])"
  by (simp add: updateAndEmplace_def Let_def)

lemma owningLayout_balanced:
  assumes "arenaInvariant s" and "owningLayout x s = Some entry"
  shows "arenasBalanced entry"
proof -
  have "arenaInvariant (getOrCreatePipelineLayout x s)"
    using assms(1) by (rule arenaInvariant_getOrCreate)
  then show ?thesis
    using assms(2) unfolding arenaInvariant_def owningLayout_def
    by (rule list_all_map_of)
qed

lemma growDescriptorPool_frame:
  "mPipelineRequirements (growDescriptorPool x s) = mPipelineRequirements s"
  "mCurrentTime (growDescriptorPool x s) = mCurrentTime s"
  "mPipelineBoundResources (growDescriptorPool x s) = mPipelineBoundResources s"
  "mDescriptorCacheEntryCount (growDescriptorPool x s) = mDescriptorCacheEntryCount s"
  "mDescriptorResources (growDescriptorPool x s) = mDescriptorResources s"
  "mDummyBufferWriteInfo (growDescriptorPool x s) = mDummyBufferWriteInfo s"
  "mDescriptorRequirements (growDescriptorPool x s) = mDescriptorRequirements s"
  "mBoundDescriptor (growDescriptorPool x s) = mBoundDescriptor s"
  by (simp_all add: growDescriptorPool_def)

lemma map_of_emplace:
  "map_of (emplace k v m) k = (case map_of m k of None \<Rightarrow> Some v | Some old \<Rightarrow> Some old)"
  by (simp add: emplace_def map_of_snoc del: map_of_append split: option.split)

lemma word_less_succ:
  fixes c :: u32
  assumes "c + 1 \<noteq> 0"
  shows "c < c + 1" and "a < c \<Longrightarrow> a < c + 1"
proof -
  have "1 + c \<noteq> 0"
    using assms by (simp add: add.commute)
  then have "unat (1 + c) = Suc (unat c)"
    by (rule unatSuc)
  then have u: "unat (c + 1) = Suc (unat c)"
    by (simp add: add.commute)
  show "c < c + 1"
    by (simp add: word_less_nat_alt u)
  show "a < c \<Longrightarrow> a < c + 1"
    by (simp add: word_less_nat_alt u)
qed

lemma idsFresh_swap: "idsFresh c (xs @ ys) \<Longrightarrow> idsFresh c (ys @ xs)"
  by (auto simp: idsFresh_def)

lemma idsFresh_succ:
  assumes "idsFresh c es" and "c + 1 \<noteq> 0"
  shows "idsFresh (c + 1) es"
  using assms word_less_succ(2) [OF assms(2)]
  by (auto simp: idsFresh_def list_all_iff)

lemma idsFresh_insert:
  assumes "idsFresh c (xs @ ys)" and "c + 1 \<noteq> 0" and "id_entry e = c"
  shows "idsFresh (c + 1) (xs @ [e] @ ys)"
proof -
  have below: "\<forall>y \<in> set xs \<union> set ys. id_entry y < c"
    using assms(1) by (auto simp: idsFresh_def list_all_iff)
  then have notin: "c \<notin> id_entry ` (set xs \<union> set ys)"
    by auto
  have "list_all (\<lambda>e. id_entry e < c + 1) (xs @ [e] @ ys)"
    using below word_less_succ [OF assms(2)] assms(3)
    by (auto simp: list_all_iff)
  moreover have "distinct (map id_entry (xs @ [e] @ ys))"
    using assms(1,3) notin by (auto simp: idsFresh_def)
  ultimately show ?thesis
    by (simp add: idsFresh_def)
qed

lemma map_snd_emplace:
  "map snd (emplace k v m) = (case map_of m k of None \<Rightarrow> map snd m @ [v] | Some old \<Rightarrow> map snd m)"
  by (simp add: emplace_def split: option.split)

text \<open>What a returning call has done to the counter, the map and the extinct bundles.\<close>

lemma createDescriptorSets_entries:
  assumes "createDescriptorSets x s = Inr (r, s', calls)"
  shows "mDescriptorCacheEntryCount s' = mDescriptorCacheEntryCount s + 1 \<and>
    (\<exists>m0.
       (m0 = mDescriptorSets s \<and> mExtinctDescriptorBundles s' = mExtinctDescriptorBundles s \<or>
        m0 = [] \<and> mExtinctDescriptorBundles s' =
                      mExtinctDescriptorBundles s @ map snd (mDescriptorSets s)) \<and>
       (r = None \<and> mDescriptorSets s' = m0 \<or>
        (\<exists>hs. r = Some (mDescriptorRequirements s) \<and>
              mDescriptorSets s' =
                emplace (mDescriptorRequirements s)
                  \<lparr>handles = hs, lastUsed = 0, pipelineLayout = layout (mPipelineRequirements s),
                   id_entry = mDescriptorCacheEntryCount s\<rparr> m0)))"
proof -
  obtain entry where e: "owningLayout x s = Some entry"
    using owningLayout_Some by blast
  show ?thesis
  proof (cases "descriptorSetArenas entry ! 0 = []")
    case True
    have eq: "createDescriptorSets x s =
      (let s2 = (getOrCreatePipelineLayout x s)\<lparr>mDescriptorCacheEntryCount := mDescriptorCacheEntryCount s + 1\<rparr>;
          s3 = (if poolWouldOverflow s then growDescriptorPool x s2 else s2);
          calls = (if poolWouldOverflow s then [Call_growDescriptorPool] else []) @
                  [Call_vkAllocateDescriptorSets (mDescriptorPool s3) DESCRIPTOR_TYPE_COUNT (descriptorSetLayouts entry)]
      in if allocationResult x \<noteq> VK_SUCCESS then Inr (None, s3, calls)
         else updateAndEmplace x s3
                \<lparr>handles = map (allocatedSets x) [0..<DESCRIPTOR_TYPE_COUNT], lastUsed = 0,
                 pipelineLayout = layout (mPipelineRequirements s),
                 id_entry = mDescriptorCacheEntryCount s\<rparr> calls)"
      by (rule createDescriptorSets_fresh [OF e True])
    define s3 where "s3 = (if poolWouldOverflow s
        then growDescriptorPool x ((getOrCreatePipelineLayout x s)\<lparr>mDescriptorCacheEntryCount := mDescriptorCacheEntryCount s + 1\<rparr>)
        else (getOrCreatePipelineLayout x s)\<lparr>mDescriptorCacheEntryCount := mDescriptorCacheEntryCount s + 1\<rparr>)"
    have s3: "mDescriptorCacheEntryCount s3 = mDescriptorCacheEntryCount s + 1"
      "mDescriptorRequirements s3 = mDescriptorRequirements s"
      "mDescriptorSets s3 = mDescriptorSets s \<and> mExtinctDescriptorBundles s3 = mExtinctDescriptorBundles s \<or>
       mDescriptorSets s3 = [] \<and> mExtinctDescriptorBundles s3 =
                      mExtinctDescriptorBundles s @ map snd (mDescriptorSets s)"
      by (simp_all add: s3_def getOrCreatePipelineLayout_frame growDescriptorPool_def)
    from assms consider
      (fail) "r = None" "s' = s3" |
      (ok) "r = Some (mDescriptorRequirements s)"
           "s' = s3\<lparr>mDescriptorSets := emplace (mDescriptorRequirements s)
              \<lparr>handles = map (allocatedSets x) [0..<DESCRIPTOR_TYPE_COUNT], lastUsed = 0,
                 pipelineLayout = layout (mPipelineRequirements s),
                 id_entry = mDescriptorCacheEntryCount s\<rparr> (mDescriptorSets s3)\<rparr>"
      unfolding eq Let_def s3_def [symmetric] updateAndEmplace_eq s3(2)
      by (auto split: if_splits)
    then show ?thesis
    proof cases
      case fail
      then show ?thesis using s3 by auto
    next
      case ok
      then show ?thesis using s3 by auto
    qed
  next
    case False
    from assms obtain hs where
      "r = Some (mDescriptorRequirements s)"
      "mDescriptorCacheEntryCount s' = mDescriptorCacheEntryCount s + 1"
      "mExtinctDescriptorBundles s' = mExtinctDescriptorBundles s"
      "mDescriptorSets s' = emplace (mDescriptorRequirements s)
              \<lparr>handles = hs, lastUsed = 0, pipelineLayout = layout (mPipelineRequirements s),
                 id_entry = mDescriptorCacheEntryCount s\<rparr> (mDescriptorSets s)"
      by (auto simp: createDescriptorSets_reuse [OF e False] updateAndEmplace_eq
          getOrCreatePipelineLayout_frame split: sum.splits prod.splits)
    then show ?thesis
      by blast
  qed
qed

text \<open>
  Among the calls of a creation that returns, the growth of the pool occurs once where the
  branch of the fresh allocation finds the guard of line 41 true, and not at all otherwise.
\<close>

lemma createDescriptorSets_growth:
  "(\<forall>r s' calls. createDescriptorSets x s = Inr (r, s', calls) \<longrightarrow>
      count_list calls Call_growDescriptorPool =
        (if firstArenaEmpty x s \<and> poolWouldOverflow s then 1 else 0)) \<and>
   (firstArenaEmpty x s \<longrightarrow> (\<exists>r s' calls. createDescriptorSets x s = Inr (r, s', calls)))"
proof -
  obtain entry where e: "owningLayout x s = Some entry"
    using owningLayout_Some by blast
  show ?thesis
  proof (cases "descriptorSetArenas entry ! 0 = []")
    case True
    then have f: "firstArenaEmpty x s" by (simp add: firstArenaEmpty_def e)
    show ?thesis
      using f by (auto simp: createDescriptorSets_fresh [OF e True] Let_def updateAndEmplace_def)
  next
    case False
    then have f: "\<not> firstArenaEmpty x s" by (simp add: firstArenaEmpty_def e)
    show ?thesis
      using f
      by (auto simp: createDescriptorSets_reuse [OF e False] updateAndEmplace_def Let_def
          split: sum.splits prod.splits)
  qed
qed

subsection \<open>Facts about \<^verbatim>\<open>bindDescriptors\<close>\<close>

lemma owningLayout_cong:
  assumes "mPipelineLayouts s' = mPipelineLayouts s"
    and "mPipelineRequirements s' = mPipelineRequirements s"
    and "mCurrentTime s' = mCurrentTime s"
  shows "owningLayout x s' = owningLayout x s"
  by (simp add: owningLayout_cases assms split: option.split)

lemma map_of_touch:
  "map_of (touch k t m) k' =
     (if k' = k then map_option (\<lambda>e. e\<lparr>lastUsed := t\<rparr>) (map_of m k) else map_of m k')"
  by (simp add: touch_def map_of_map_entry_same map_of_map_entry_other)

text \<open>Binding an entry that is in the map returns true, after the two calls.\<close>

lemma bindCacheEntry_returns:
  assumes "map_of (mDescriptorSets s1) k = Some e"
  shows "\<exists>s' layoutEntry.
     bindCacheEntry x cmdbuffer k s1 calls =
       Inr (True, s',
            calls @ [Call_acquireAll (id_entry e) (mPipelineBoundResources s1),
                     Call_vkCmdBindDescriptorSets cmdbuffer (handle layoutEntry) (handles e)]) \<and>
     owningLayout x s1 = Some layoutEntry \<and>
     mBoundDescriptor s' = mDescriptorRequirements s1 \<and>
     mDescriptorSets s' = touch k (mCurrentTime s1) (mDescriptorSets s1) \<and>
     map_of (mDescriptorResources s') (id_entry e) =
       Some (acquireAll (case map_of (mDescriptorResources s1) (id_entry e) of
                           None \<Rightarrow> [] | Some tracker \<Rightarrow> tracker)
               (mPipelineBoundResources s1)) \<and>
     (\<forall>i. i \<noteq> id_entry e \<longrightarrow>
        map_of (mDescriptorResources s') i = map_of (mDescriptorResources s1) i)"
proof -
  obtain layoutEntry where le: "owningLayout x s1 = Some layoutEntry"
    using owningLayout_Some by blast
  have lay: "map_of (mPipelineLayouts (getOrCreatePipelineLayout x s5))
               (layout (mPipelineRequirements s1)) = Some layoutEntry"
    if "mPipelineLayouts s5 = mPipelineLayouts s1"
      and "mPipelineRequirements s5 = mPipelineRequirements s1"
      and "mCurrentTime s5 = mCurrentTime s1" for s5
    using le owningLayout_cong [OF that, of x] that(2) by (simp add: owningLayout_def)
  show ?thesis
  proof (cases "map_of (mDescriptorResources s1) (id_entry e)")
    case None
    show ?thesis
      using assms None le
      by (simp add: bindCacheEntry_def Let_def map_of_touch lay getOrCreatePipelineLayout_frame
          update_conv' map_of_map_entry_same map_of_map_entry_other)
  next
    case (Some tracker)
    show ?thesis
      using assms Some le
      by (simp add: bindCacheEntry_def Let_def map_of_touch lay getOrCreatePipelineLayout_frame
          map_of_map_entry_same map_of_map_entry_other)
  qed
qed

lemma bindCacheEntry_calls:
  assumes "map_of (mDescriptorSets s1) k = Some e"
  shows "\<exists>s' (layoutEntry :: PipelineLayoutCacheEntry).
     bindCacheEntry x cmdbuffer k s1 calls =
       Inr (True, s',
            calls @ [Call_acquireAll (id_entry e) (mPipelineBoundResources s1),
                     Call_vkCmdBindDescriptorSets cmdbuffer (handle layoutEntry) (handles e)])"
proof -
  from bindCacheEntry_returns [OF assms, of x cmdbuffer calls]
  obtain s' layoutEntry where
    "bindCacheEntry x cmdbuffer k s1 calls =
       Inr (True, s',
            calls @ [Call_acquireAll (id_entry e) (mPipelineBoundResources s1),
                     Call_vkCmdBindDescriptorSets cmdbuffer (handle layoutEntry) (handles e)]) \<and>
     owningLayout x s1 = Some layoutEntry"
    by (elim exE conjE) (rule that, rule conjI)
  then have r: "bindCacheEntry x cmdbuffer k s1 calls =
       Inr (True, s',
            calls @ [Call_acquireAll (id_entry e) (mPipelineBoundResources s1),
                     Call_vkCmdBindDescriptorSets cmdbuffer (handle layoutEntry) (handles e)])"
    by (rule conjunct1)
  show ?thesis
  proof (intro exI)
    show "bindCacheEntry x cmdbuffer k s1 calls =
       Inr (True, s',
            calls @ [Call_acquireAll (id_entry e) (mPipelineBoundResources s1),
                     Call_vkCmdBindDescriptorSets cmdbuffer (handle layoutEntry) (handles e)])"
      by (rule r)
  qed
qed

lemma createDescriptorSets_frame:
  assumes "createDescriptorSets x s = Inr (r, s', calls)"
  shows "mDescriptorResources s' = mDescriptorResources s"
    and "mPipelineBoundResources s' = mPipelineBoundResources s"
    and "mBoundDescriptor s' = mBoundDescriptor s"
    and "mDescriptorRequirements s' = mDescriptorRequirements s"
    and "mCurrentTime s' = mCurrentTime s"
    and "mPipelineRequirements s' = mPipelineRequirements s"
    and "mDummyBufferWriteInfo s' = mDummyBufferWriteInfo s"
proof -
  obtain entry where e: "owningLayout x s = Some entry"
    using owningLayout_Some by blast
  have "mDescriptorResources s' = mDescriptorResources s \<and>
        mPipelineBoundResources s' = mPipelineBoundResources s \<and>
        mBoundDescriptor s' = mBoundDescriptor s \<and>
        mDescriptorRequirements s' = mDescriptorRequirements s \<and>
        mCurrentTime s' = mCurrentTime s \<and>
        mPipelineRequirements s' = mPipelineRequirements s \<and>
        mDummyBufferWriteInfo s' = mDummyBufferWriteInfo s"
  proof (cases "descriptorSetArenas entry ! 0 = []")
    case True
    show ?thesis
      using assms
      by (auto simp: createDescriptorSets_fresh [OF e True] Let_def updateAndEmplace_eq
          getOrCreatePipelineLayout_frame growDescriptorPool_frame split: if_splits)
  next
    case False
    show ?thesis
      using assms
      by (auto simp: createDescriptorSets_reuse [OF e False] updateAndEmplace_eq
          getOrCreatePipelineLayout_frame split: sum.splits prod.splits)
  qed
  then show "mDescriptorResources s' = mDescriptorResources s"
    and "mPipelineBoundResources s' = mPipelineBoundResources s"
    and "mBoundDescriptor s' = mBoundDescriptor s"
    and "mDescriptorRequirements s' = mDescriptorRequirements s"
    and "mCurrentTime s' = mCurrentTime s"
    and "mPipelineRequirements s' = mPipelineRequirements s"
    and "mDummyBufferWriteInfo s' = mDummyBufferWriteInfo s"
    by simp_all
qed

lemma createDescriptorSets_Some:
  assumes "createDescriptorSets x s = Inr (Some k, s', calls)"
  shows "k = mDescriptorRequirements s \<and> (\<exists>e. map_of (mDescriptorSets s') k = Some e)"
proof -
  from createDescriptorSets_entries [OF assms] obtain m0 hs where
    "mDescriptorSets s' = emplace (mDescriptorRequirements s)
       \<lparr>handles = hs, lastUsed = 0, pipelineLayout = layout (mPipelineRequirements s),
        id_entry = mDescriptorCacheEntryCount s\<rparr> m0"
    and "k = mDescriptorRequirements s"
    by auto
  then show ?thesis
    by (simp add: map_of_emplace split: option.split)
qed

text \<open>The three ways through \<^verbatim>\<open>bindDescriptors\<close>.\<close>

lemma bindDescriptors_fast:
  assumes "alreadyBound s"
  shows "bindDescriptors x cmdbuffer s =
     (case map_of (mDescriptorSets s) (mDescriptorRequirements s) of
        None \<Rightarrow> Inl EndIteratorDereferenced
      | Some entry \<Rightarrow>
          Inr (True,
               s\<lparr>mDescriptorSets :=
                    touch (mDescriptorRequirements s) (mCurrentTime s) (mDescriptorSets s)\<rparr>,
               []))"
  using assms by (simp add: bindDescriptors_def alreadyBound_def Let_def)

lemma bindDescriptors_hit:
  assumes "\<not> alreadyBound s" and "map_of (mDescriptorSets s) (mDescriptorRequirements s) = Some e"
  shows "bindDescriptors x cmdbuffer s = bindCacheEntry x cmdbuffer (mDescriptorRequirements s) s []"
  using assms by (auto simp: bindDescriptors_def alreadyBound_def Let_def)

lemma bindDescriptors_miss:
  assumes "\<not> alreadyBound s" and "map_of (mDescriptorSets s) (mDescriptorRequirements s) = None"
  shows "bindDescriptors x cmdbuffer s =
     (case createDescriptorSets x s of
        Inl fault \<Rightarrow> Inl fault
      | Inr (None, s1, calls) \<Rightarrow> Inr (False, s1, calls)
      | Inr (Some cacheEntry, s1, calls) \<Rightarrow> bindCacheEntry x cmdbuffer cacheEntry s1 calls)"
  using assms by (auto simp: bindDescriptors_def alreadyBound_def Let_def)

text \<open>The map of trackers keeps one tracker per id.\<close>

lemma bindCacheEntry_trackers_distinct:
  assumes "bindCacheEntry x cmdbuffer k s1 calls = Inr (b, s', calls')"
    and "distinct (map fst (mDescriptorResources s1))"
  shows "distinct (map fst (mDescriptorResources s'))"
  using assms
  by (auto simp: bindCacheEntry_def Let_def getOrCreatePipelineLayout_frame
      distinct_update distinct_map_entry split: option.splits)

lemma bindDescriptors_trackers_distinct:
  assumes "bindDescriptors x cmdbuffer s = Inr (b, s', calls)"
    and "distinct (map fst (mDescriptorResources s))"
  shows "distinct (map fst (mDescriptorResources s'))"
proof (cases "alreadyBound s")
  case True
  then show ?thesis
    using assms by (auto simp: bindDescriptors_fast split: option.splits)
next
  case False
  show ?thesis
  proof (cases "map_of (mDescriptorSets s) (mDescriptorRequirements s)")
    case (Some e)
    then show ?thesis
      using assms bindCacheEntry_trackers_distinct
      by (simp add: bindDescriptors_hit [OF False Some])
  next
    case None
    note eq = bindDescriptors_miss [OF False None, of x cmdbuffer]
    from assms(1) consider
      (fail) s1 before where "createDescriptorSets x s = Inr (None, s1, before)" "s' = s1"
    | (ok) k s1 before where "createDescriptorSets x s = Inr (Some k, s1, before)"
        "bindCacheEntry x cmdbuffer k s1 before = Inr (b, s', calls)"
      by (auto simp: eq split: sum.splits prod.splits option.splits)
    then show ?thesis
    proof cases
      case fail
      then show ?thesis
        using assms(2) createDescriptorSets_frame(1) [OF fail(1)] by simp
    next
      case ok
      have "distinct (map fst (mDescriptorResources s1))"
        using assms(2) createDescriptorSets_frame(1) [OF ok(1)] by simp
      with ok(2) show ?thesis
        by (rule bindCacheEntry_trackers_distinct)
    qed
  qed
qed

subsection \<open>Facts about the write phase\<close>

lemma updatesOf_append: "updatesOf (cs @ ds) = updatesOf cs @ updatesOf ds"
  by (induction cs rule: updatesOf.induct) simp_all

lemma ucast_u32_u64_eq: "(ucast (a :: u32) :: u64) = ucast b \<longleftrightarrow> a = b"
proof
  assume "(ucast a :: u64) = ucast b"
  then have "uint (ucast a :: u64) = uint (ucast b :: u64)"
    by simp
  then have "uint a = uint b"
    by (simp add: uint_up_ucast is_up)
  then show "a = b"
    by (simp add: word_uint_eq_iff)
qed simp

lemma length_uniformBufferWrites:
  "length (uniformBufferWrites whole dummy req hs) = UBUFFER_BINDING_COUNT"
  by (simp add: uniformBufferWrites_def)

lemma nth_uniformBufferWrites:
  "binding < UBUFFER_BINDING_COUNT \<Longrightarrow>
   uniformBufferWrites whole dummy req hs ! binding = uniformBufferWrite whole dummy req hs binding"
  by (simp add: uniformBufferWrites_def)

lemma slotOf_uniformBufferWrite:
  "slotOf (uniformBufferWrite whole dummy req hs binding) = (hs ! 0, of_nat binding)"
  by (simp add: slotOf_def uniformBufferWrite_def Let_def)

lemma slotOf_uniformBufferWrites:
  "map slotOf (uniformBufferWrites whole dummy req hs) =
     map (\<lambda>binding. (hs ! 0, of_nat binding)) [0..<UBUFFER_BINDING_COUNT]"
  by (simp add: uniformBufferWrites_def slotOf_uniformBufferWrite)

lemma slotOf_samplerWrites:
  "map slotOf (samplerWrites req hs) =
     map (\<lambda>binding. (hs ! 1, of_nat binding))
       (filter (\<lambda>binding. sampler (samplers req ! binding) \<noteq> 0) [0..<SAMPLER_BINDING_COUNT])"
  by (simp add: samplerWrites_def samplerWrite_def slotOf_def)

lemma slotOf_inputAttachmentWrites:
  "map slotOf (inputAttachmentWrites req hs) =
     map (\<lambda>binding. (hs ! 2, of_nat binding))
       (filter (\<lambda>binding. imageView (inputAttachments req ! binding) \<noteq> 0)
          [0..<INPUT_ATTACHMENT_COUNT])"
  by (simp add: inputAttachmentWrites_def inputAttachmentWrite_def slotOf_def)

lemma samplerWrites_props:
  "w \<in> set (samplerWrites req hs) \<Longrightarrow>
     dstSet w = hs ! 1 \<and> descriptorType w = VK_DESCRIPTOR_TYPE_COMBINED_IMAGE_SAMPLER"
  by (auto simp: samplerWrites_def samplerWrite_def)

lemma inputAttachmentWrites_props:
  "w \<in> set (inputAttachmentWrites req hs) \<Longrightarrow>
     dstSet w = hs ! 2 \<and> descriptorType w = VK_DESCRIPTOR_TYPE_INPUT_ATTACHMENT"
  by (auto simp: inputAttachmentWrites_def inputAttachmentWrite_def)

lemma length_reclaimDescriptorSets:
  "reclaimDescriptorSets indices hs arenas = Inr (hs', arenas') \<Longrightarrow> length hs' = length hs"
  by (induction indices hs arenas rule: reclaimDescriptorSets.induct) (auto split: if_splits)

text \<open>
  A call that returns an entry has made exactly one batched update, with the writes for the
  handles of the entry it built; on a miss that entry is the one in the map.
\<close>

lemma createDescriptorSets_writes:
  assumes "createDescriptorSets x s = Inr (Some k, s', calls)"
  shows "\<exists>hs. length hs = DESCRIPTOR_TYPE_COUNT \<and>
     updatesOf calls =
       [descriptorWrites (WHOLE_SIZE x) (mDummyBufferWriteInfo s) (mDescriptorRequirements s) hs] \<and>
     (map_of (mDescriptorSets s) (mDescriptorRequirements s) = None \<longrightarrow>
        (\<exists>new. map_of (mDescriptorSets s') (mDescriptorRequirements s) = Some new \<and>
               handles new = hs))"
proof -
  obtain entry where e: "owningLayout x s = Some entry"
    using owningLayout_Some by blast
  show ?thesis
  proof (cases "descriptorSetArenas entry ! 0 = []")
    case True
    define s3 where "s3 =
      (if poolWouldOverflow s
       then growDescriptorPool x
              ((getOrCreatePipelineLayout x s)
                 \<lparr>mDescriptorCacheEntryCount := mDescriptorCacheEntryCount s + 1\<rparr>)
       else (getOrCreatePipelineLayout x s)
              \<lparr>mDescriptorCacheEntryCount := mDescriptorCacheEntryCount s + 1\<rparr>)"
    have s3: "mDescriptorRequirements s3 = mDescriptorRequirements s"
      "mDummyBufferWriteInfo s3 = mDummyBufferWriteInfo s"
      "mDescriptorSets s3 = mDescriptorSets s \<or> mDescriptorSets s3 = []"
      by (simp_all add: s3_def getOrCreatePipelineLayout_frame growDescriptorPool_def)
    have miss3: "map_of (mDescriptorSets s) (mDescriptorRequirements s) = None \<Longrightarrow>
                 map_of (mDescriptorSets s3) (mDescriptorRequirements s) = None"
      using s3(3) by auto
    let ?hs = "map (allocatedSets x) [0..<DESCRIPTOR_TYPE_COUNT]"
    let ?new = "\<lparr>handles = ?hs, lastUsed = 0, pipelineLayout = layout (mPipelineRequirements s),
                 id_entry = mDescriptorCacheEntryCount s\<rparr>"
    from assms have
      calls: "updatesOf calls =
        [descriptorWrites (WHOLE_SIZE x) (mDummyBufferWriteInfo s) (mDescriptorRequirements s) ?hs]"
      and sets: "mDescriptorSets s' = emplace (mDescriptorRequirements s) ?new (mDescriptorSets s3)"
      unfolding createDescriptorSets_fresh [OF e True] Let_def s3_def [symmetric]
        updateAndEmplace_eq s3
      by (auto simp: updatesOf_append split: if_splits)
    show ?thesis
    proof (intro exI conjI impI)
      show "length ?hs = DESCRIPTOR_TYPE_COUNT"
        by simp
      show "updatesOf calls =
        [descriptorWrites (WHOLE_SIZE x) (mDummyBufferWriteInfo s) (mDescriptorRequirements s) ?hs]"
        by (rule calls)
      assume "map_of (mDescriptorSets s) (mDescriptorRequirements s) = None"
      then show "map_of (mDescriptorSets s') (mDescriptorRequirements s) = Some ?new"
        using miss3 by (simp add: sets map_of_emplace)
      show "handles ?new = ?hs"
        by simp
    qed
  next
    case False
    from assms obtain hs arenas where
      rec: "reclaimDescriptorSets [0..<DESCRIPTOR_TYPE_COUNT]
              (replicate DESCRIPTOR_TYPE_COUNT 0) (descriptorSetArenas entry) = Inr (hs, arenas)"
      and calls: "updatesOf calls =
        [descriptorWrites (WHOLE_SIZE x) (mDummyBufferWriteInfo s) (mDescriptorRequirements s) hs]"
      and sets: "mDescriptorSets s' =
        emplace (mDescriptorRequirements s)
          \<lparr>handles = hs, lastUsed = 0, pipelineLayout = layout (mPipelineRequirements s),
           id_entry = mDescriptorCacheEntryCount s\<rparr> (mDescriptorSets s)"
      by (auto simp: createDescriptorSets_reuse [OF e False] updateAndEmplace_eq
          getOrCreatePipelineLayout_frame split: sum.splits prod.splits)
    have len: "length hs = DESCRIPTOR_TYPE_COUNT"
      using length_reclaimDescriptorSets [OF rec] by simp
    show ?thesis
    proof (intro exI conjI impI)
      show "length hs = DESCRIPTOR_TYPE_COUNT"
        by (rule len)
      show "updatesOf calls =
        [descriptorWrites (WHOLE_SIZE x) (mDummyBufferWriteInfo s) (mDescriptorRequirements s) hs]"
        by (rule calls)
      assume "map_of (mDescriptorSets s) (mDescriptorRequirements s) = None"
      then show "map_of (mDescriptorSets s') (mDescriptorRequirements s) =
        Some \<lparr>handles = hs, lastUsed = 0, pipelineLayout = layout (mPipelineRequirements s),
           id_entry = mDescriptorCacheEntryCount s\<rparr>"
        by (simp add: sets map_of_emplace)
      show "handles \<lparr>handles = hs, lastUsed = 0, pipelineLayout = layout (mPipelineRequirements s),
           id_entry = mDescriptorCacheEntryCount s\<rparr> = hs"
        by simp
    qed
  qed
qed

text \<open>The reuse branch, with balanced arenas, as one equation.\<close>

lemma createDescriptorSets_reuse_balanced:
  assumes "owningLayout x s = Some entry"
    and "arenasBalanced entry"
    and "descriptorSetArenas entry ! 0 \<noteq> []"
  shows "createDescriptorSets x s =
     updateAndEmplace x
       ((getOrCreatePipelineLayout x s)
          \<lparr>mDescriptorCacheEntryCount := mDescriptorCacheEntryCount s + 1,
           mPipelineLayouts :=
             AList.map_entry (layout (mPipelineRequirements s))
               (\<lambda>e. e\<lparr>descriptorSetArenas := map butlast (descriptorSetArenas entry)\<rparr>)
               (mPipelineLayouts (getOrCreatePipelineLayout x s)),
           mDescriptorArenasCount := mDescriptorArenasCount s - 1\<rparr>)
       \<lparr>handles = map last (descriptorSetArenas entry), lastUsed = 0,
        pipelineLayout = layout (mPipelineRequirements s),
        id_entry = mDescriptorCacheEntryCount s\<rparr> []"
proof -
  have ne: "\<forall>arena \<in> set (descriptorSetArenas entry). arena \<noteq> []"
    using assms(2,3) by (rule arenasBalanced_nonempty)
  have len: "length (descriptorSetArenas entry) = DESCRIPTOR_TYPE_COUNT"
    using assms(2) by (simp add: arenasBalanced_def)
  have rec: "reclaimDescriptorSets [0..<DESCRIPTOR_TYPE_COUNT]
               (replicate DESCRIPTOR_TYPE_COUNT 0) (descriptorSetArenas entry) =
             Inr (map last (descriptorSetArenas entry), map butlast (descriptorSetArenas entry))"
    using ne by (simp add: reclaimDescriptorSets_three [OF len])
  show ?thesis
    by (simp add: createDescriptorSets_reuse [OF assms(1,3)] rec)
qed

lemma slotOf_descriptorWrites:
  "map slotOf (descriptorWrites whole dummy req hs) =
     map (\<lambda>binding. (hs ! 0, of_nat binding)) [0..<UBUFFER_BINDING_COUNT] @
     map (\<lambda>binding. (hs ! 1, of_nat binding))
       (filter (\<lambda>binding. sampler (samplers req ! binding) \<noteq> 0) [0..<SAMPLER_BINDING_COUNT]) @
     map (\<lambda>binding. (hs ! 2, of_nat binding))
       (filter (\<lambda>binding. imageView (inputAttachments req ! binding) \<noteq> 0)
          [0..<INPUT_ATTACHMENT_COUNT])"
  by (simp add: descriptorWrites_def slotOf_uniformBufferWrites slotOf_samplerWrites
      slotOf_inputAttachmentWrites)

text \<open>The zero key has no active sampler and no active input attachment.\<close>

lemma zeroKey_inactive:
  "filter (\<lambda>binding. sampler (samplers zeroKey ! binding) \<noteq> 0) [0..<SAMPLER_BINDING_COUNT] = []"
  "filter (\<lambda>binding. imageView (inputAttachments zeroKey ! binding) \<noteq> 0)
     [0..<INPUT_ATTACHMENT_COUNT] = []"
  by (simp_all add: filter_empty_conv zeroKey_def zeroInfo_def)

lemma reuseCache_owningLayout:
  "owningLayout x reuseCache = Some (exampleLayout [[200], [201], [202]])"
  by (simp add: owningLayout_cases reuseCache_def freshCache_def zeroPipelineKey_def
      exampleLayout_def)

lemma exampleLayout_balanced:
  "arenasBalanced (exampleLayout [[200], [201], [202]])"
  "descriptorSetArenas (exampleLayout [[200], [201], [202]]) ! 0 \<noteq> []"
  by (simp_all add: exampleLayout_def arenasBalanced_def DESCRIPTOR_TYPE_COUNT_def)

text \<open>The textured key has one active sampler, in slot 0, and no active input attachment.\<close>

lemma texturedKey_active:
  "filter (\<lambda>binding. sampler (samplers texturedKey ! binding) \<noteq> 0) [0..<SAMPLER_BINDING_COUNT] = [0]"
  "filter (\<lambda>binding. imageView (inputAttachments texturedKey ! binding) \<noteq> 0)
     [0..<INPUT_ATTACHMENT_COUNT] = []"
proof -
  have u: "[0..<SAMPLER_BINDING_COUNT] = 0 # [1..<SAMPLER_BINDING_COUNT]"
    by (simp add: SAMPLER_BINDING_COUNT_def upt_conv_Cons)
  have rest: "filter (\<lambda>binding. sampler (samplers texturedKey ! binding) \<noteq> 0)
                [1..<SAMPLER_BINDING_COUNT] = []"
    by (auto simp: filter_empty_conv texturedKey_def zeroInfo_def SAMPLER_BINDING_COUNT_def
        nth_Cons split: nat.splits)
  show "filter (\<lambda>binding. sampler (samplers texturedKey ! binding) \<noteq> 0)
          [0..<SAMPLER_BINDING_COUNT] = [0]"
    unfolding u using rest by (simp add: texturedKey_def)
  show "filter (\<lambda>binding. imageView (inputAttachments texturedKey ! binding) \<noteq> 0)
     [0..<INPUT_ATTACHMENT_COUNT] = []"
    by (simp add: filter_empty_conv texturedKey_def exampleKey_def zeroKey_def zeroInfo_def
        INPUT_ATTACHMENT_COUNT_def)
qed

subsection \<open>Facts about the byte images\<close>

lemma length_le_bytes: "length (le_bytes n v) = n"
  by (induction n arbitrary: v) simp_all

lemma of_nat_u8_eq:
  assumes "a < 256" and "b < 256" and "(of_nat a :: u8) = of_nat b"
  shows "a = b"
proof -
  have "unat (of_nat a :: u8) = unat (of_nat b :: u8)"
    using assms(3) by simp
  then show ?thesis
    using assms(1,2) by (simp add: unat_of_nat)
qed

lemma le_bytes_inj:
  "v < 256 ^ n \<Longrightarrow> v' < 256 ^ n \<Longrightarrow> le_bytes n v = le_bytes n v' \<Longrightarrow> v = v'"
proof (induction n arbitrary: v v')
  case 0
  then show ?case by simp
next
  case (Suc n)
  have lo: "v mod 256 = v' mod 256"
    using Suc.prems(3) by (auto intro: of_nat_u8_eq)
  have "v div 256 < 256 ^ n" and "v' div 256 < 256 ^ n"
    using Suc.prems(1,2) by (simp_all add: less_mult_imp_div_less mult.commute)
  moreover have "le_bytes n (v div 256) = le_bytes n (v' div 256)"
    using Suc.prems(3) by simp
  ultimately have hi: "v div 256 = v' div 256"
    by (rule Suc.IH)
  have "v = 256 * (v div 256) + v mod 256" and "v' = 256 * (v' div 256) + v' mod 256"
    by simp_all
  with lo hi show ?case
    by metis
qed

lemma length_word_bytes [simp]:
  "length (u8_bytes a) = 1" "length (u16_bytes b) = 2" "length (u32_bytes c) = 4"
  "length (u64_bytes d) = 8" "length (u128_bytes e) = 16"
  by (simp_all add: u8_bytes_def u16_bytes_def u32_bytes_def u64_bytes_def u128_bytes_def
      length_le_bytes)

lemma u8_bytes_eq [simp]: "u8_bytes a = u8_bytes b \<longleftrightarrow> a = b"
proof
  assume "u8_bytes a = u8_bytes b"
  moreover have "unat a < 256 ^ 1" and "unat b < 256 ^ 1"
    using unsigned_less [of a, where ?'a = nat] unsigned_less [of b, where ?'a = nat] by simp_all
  ultimately have "unat a = unat b"
    unfolding u8_bytes_def by (intro le_bytes_inj [of _ 1])
  then show "a = b"
    by (simp add: word_unat_eq_iff)
qed simp

lemma u16_bytes_eq [simp]: "u16_bytes a = u16_bytes b \<longleftrightarrow> a = b"
proof
  assume "u16_bytes a = u16_bytes b"
  moreover have "unat a < 256 ^ 2" and "unat b < 256 ^ 2"
    using unsigned_less [of a, where ?'a = nat] unsigned_less [of b, where ?'a = nat] by simp_all
  ultimately have "unat a = unat b"
    unfolding u16_bytes_def by (intro le_bytes_inj [of _ 2])
  then show "a = b"
    by (simp add: word_unat_eq_iff)
qed simp

lemma u32_bytes_eq [simp]: "u32_bytes a = u32_bytes b \<longleftrightarrow> a = b"
proof
  assume "u32_bytes a = u32_bytes b"
  moreover have "unat a < 256 ^ 4" and "unat b < 256 ^ 4"
    using unsigned_less [of a, where ?'a = nat] unsigned_less [of b, where ?'a = nat] by simp_all
  ultimately have "unat a = unat b"
    unfolding u32_bytes_def by (intro le_bytes_inj [of _ 4])
  then show "a = b"
    by (simp add: word_unat_eq_iff)
qed simp

lemma u64_bytes_eq [simp]: "u64_bytes a = u64_bytes b \<longleftrightarrow> a = b"
proof
  assume "u64_bytes a = u64_bytes b"
  moreover have "unat a < 256 ^ 8" and "unat b < 256 ^ 8"
    using unsigned_less [of a, where ?'a = nat] unsigned_less [of b, where ?'a = nat] by simp_all
  ultimately have "unat a = unat b"
    unfolding u64_bytes_def by (intro le_bytes_inj [of _ 8])
  then show "a = b"
    by (simp add: word_unat_eq_iff)
qed simp

lemma u128_bytes_eq [simp]: "u128_bytes a = u128_bytes b \<longleftrightarrow> a = b"
proof
  assume "u128_bytes a = u128_bytes b"
  moreover have "unat a < 256 ^ 16" and "unat b < 256 ^ 16"
    using unsigned_less [of a, where ?'a = nat] unsigned_less [of b, where ?'a = nat] by simp_all
  ultimately have "unat a = unat b"
    unfolding u128_bytes_def by (intro le_bytes_inj [of _ 16])
  then show "a = b"
    by (simp add: word_unat_eq_iff)
qed simp

text \<open>Arrays of elements that each take \<open>n\<close> bytes.\<close>

lemma length_concat_map_fixed:
  "(\<And>x. length (f x) = n) \<Longrightarrow> length (concat (map f xs)) = n * length xs"
  by (induction xs) simp_all

lemma concat_map_fixed_inj:
  assumes "\<And>x. length (f x) = n" and "\<And>x y. f x = f y \<Longrightarrow> x = y"
  shows "length xs = length ys \<Longrightarrow> concat (map f xs) = concat (map f ys) \<Longrightarrow> xs = ys"
proof (induction xs ys rule: list_induct2)
  case Nil
  then show ?case by simp
next
  case (Cons x xs y ys)
  have "f x @ concat (map f xs) = f y @ concat (map f ys)"
    using Cons.prems by simp
  moreover have "length (f x) = length (f y)"
    by (simp add: assms(1))
  ultimately have "f x = f y" and "concat (map f xs) = concat (map f ys)"
    by simp_all
  then show ?case
    using Cons.IH assms(2) by simp
qed

lemma length_DescriptorImageInfo_bytes [simp]: "length (DescriptorImageInfo_bytes info) = 24"
  by (simp add: DescriptorImageInfo_bytes_def)

lemma DescriptorImageInfo_bytes_inj:
  "DescriptorImageInfo_bytes a = DescriptorImageInfo_bytes b \<Longrightarrow> a = b"
  by (cases a, cases b) (simp add: DescriptorImageInfo_bytes_def)

lemma length_DescriptorKey_bytes:
  assumes "DescriptorKey_wf k"
  shows "length (DescriptorKey_bytes k) = 1672"
  using assms
  by (simp add: DescriptorKey_bytes_def DescriptorKey_wf_def
      length_concat_map_fixed [where n = 8] length_concat_map_fixed [where n = 24]
      length_concat_map_fixed [where n = 4]
      UBUFFER_BINDING_COUNT_def SAMPLER_BINDING_COUNT_def INPUT_ATTACHMENT_COUNT_def)

lemma DescriptorKey_bytes_inj:
  assumes "DescriptorKey_wf k1" and "DescriptorKey_wf k2"
    and "DescriptorKey_bytes k1 = DescriptorKey_bytes k2"
  shows "k1 = k2"
proof -
  have len: "length (uniformBuffers k1) = length (uniformBuffers k2)"
    "length (samplers k1) = length (samplers k2)"
    "length (inputAttachments k1) = length (inputAttachments k2)"
    "length (uniformBufferOffsets k1) = length (uniformBufferOffsets k2)"
    "length (uniformBufferSizes k1) = length (uniformBufferSizes k2)"
    using assms(1,2) by (simp_all add: DescriptorKey_wf_def)
  have parts:
    "concat (map u64_bytes (uniformBuffers k1)) = concat (map u64_bytes (uniformBuffers k2)) \<and>
     concat (map DescriptorImageInfo_bytes (samplers k1)) =
       concat (map DescriptorImageInfo_bytes (samplers k2)) \<and>
     concat (map DescriptorImageInfo_bytes (inputAttachments k1)) =
       concat (map DescriptorImageInfo_bytes (inputAttachments k2)) \<and>
     concat (map u32_bytes (uniformBufferOffsets k1)) =
       concat (map u32_bytes (uniformBufferOffsets k2)) \<and>
     concat (map u32_bytes (uniformBufferSizes k1)) =
       concat (map u32_bytes (uniformBufferSizes k2))"
    using assms(3) len
    by (simp add: DescriptorKey_bytes_def length_concat_map_fixed [where n = 8]
        length_concat_map_fixed [where n = 24] length_concat_map_fixed [where n = 4])
  have "uniformBuffers k1 = uniformBuffers k2"
    using len(1) parts by (intro concat_map_fixed_inj [where f = u64_bytes and n = 8]) simp_all
  moreover have "samplers k1 = samplers k2"
    using len(2) parts
    by (intro concat_map_fixed_inj [where f = DescriptorImageInfo_bytes and n = 24])
      (simp_all add: DescriptorImageInfo_bytes_inj)
  moreover have "inputAttachments k1 = inputAttachments k2"
    using len(3) parts
    by (intro concat_map_fixed_inj [where f = DescriptorImageInfo_bytes and n = 24])
      (simp_all add: DescriptorImageInfo_bytes_inj)
  moreover have "uniformBufferOffsets k1 = uniformBufferOffsets k2"
    using len(4) parts by (intro concat_map_fixed_inj [where f = u32_bytes and n = 4]) simp_all
  moreover have "uniformBufferSizes k1 = uniformBufferSizes k2"
    using len(5) parts by (intro concat_map_fixed_inj [where f = u32_bytes and n = 4]) simp_all
  ultimately show ?thesis
    by (cases k1, cases k2) simp
qed

text \<open>Bit-fields packed into one unit: the low field and the rest are both determined.\<close>

lemma packed_eq:
  fixes a b a' b' m :: nat
  assumes "a < m" and "a' < m" and "a + m * b = a' + m * b'"
  shows "a = a' \<and> b = b'"
proof -
  have "(a + m * b) mod m = a" and "(a' + m * b') mod m = a'"
    using assms(1,2) by simp_all
  then have "a = a'"
    using assms(3) by metis
  moreover have "(a + m * b) div m = b" and "(a' + m * b') div m = b'"
    using assms(1,2) by simp_all
  then have "b = b'"
    using assms(3) by metis
  ultimately show ?thesis
    by simp
qed

lemma unat_bitfield_less:
  "unat (a :: 1 word) < 2" "unat (b :: 2 word) < 4" "unat (c :: 4 word) < 16"
  "unat (d :: 5 word) < 32"
  using unsigned_less [of a, where ?'a = nat] unsigned_less [of b, where ?'a = nat]
    unsigned_less [of c, where ?'a = nat] unsigned_less [of d, where ?'a = nat]
  by simp_all

lemma length_RasterState_bytes [simp]: "length (RasterState_bytes r) = 16"
  by (simp add: RasterState_bytes_def length_le_bytes)

lemma RasterState_bytes_inj:
  assumes "RasterState_bytes r = RasterState_bytes r'"
  shows "r = r'"
proof -
  let ?b0 = "\<lambda>r. unat (cullMode r) + 4 * (unat (frontFace r) + 4 * (unat (depthBiasEnable r) +
          2 * (unat (blendEnable r) + 2 * (unat (depthWriteEnable r) +
          2 * unat (alphaToCoverageEnable r)))))"
  let ?b1 = "\<lambda>r. unat (srcColorBlendFactor r) + 32 * (unat (dstColorBlendFactor r) +
          32 * (unat (srcAlphaBlendFactor r) + 32 * (unat (dstAlphaBlendFactor r) +
          32 * unat (colorWriteMask r))))"
  let ?b6 = "\<lambda>r. unat (colorBlendOp r) + 16 * unat (alphaBlendOp r)"
  have parts: "le_bytes 1 (?b0 r) = le_bytes 1 (?b0 r')" "le_bytes 3 (?b1 r) = le_bytes 3 (?b1 r')"
    "rasterizationSamples r = rasterizationSamples r'" "colorTargetCount r = colorTargetCount r'"
    "le_bytes 1 (?b6 r) = le_bytes 1 (?b6 r')" "depthCompareOp r = depthCompareOp r'"
    "depthBiasConstantFactor r = depthBiasConstantFactor r'"
    "depthBiasSlopeFactor r = depthBiasSlopeFactor r'"
    using assms by (simp_all add: RasterState_bytes_def length_le_bytes)
  have bound0: "?b0 q < 256 ^ 1" for q :: RasterState
    using unat_bitfield_less(2) [of "cullMode q"] unat_bitfield_less(2) [of "frontFace q"]
      unat_bitfield_less(1) [of "depthBiasEnable q"] unat_bitfield_less(1) [of "blendEnable q"]
      unat_bitfield_less(1) [of "depthWriteEnable q"]
      unat_bitfield_less(1) [of "alphaToCoverageEnable q"]
    by simp
  have bound1: "?b1 q < 256 ^ 3" for q :: RasterState
    using unat_bitfield_less(4) [of "srcColorBlendFactor q"]
      unat_bitfield_less(4) [of "dstColorBlendFactor q"]
      unat_bitfield_less(4) [of "srcAlphaBlendFactor q"]
      unat_bitfield_less(4) [of "dstAlphaBlendFactor q"]
      unat_bitfield_less(3) [of "colorWriteMask q"]
    by simp
  have bound6: "?b6 q < 256 ^ 1" for q :: RasterState
    using unat_bitfield_less(3) [of "colorBlendOp q"] unat_bitfield_less(3) [of "alphaBlendOp q"]
    by simp
  have e0: "?b0 r = ?b0 r'"
    using bound0 bound0 parts(1) by (rule le_bytes_inj)
  have e1: "?b1 r = ?b1 r'"
    using bound1 bound1 parts(2) by (rule le_bytes_inj)
  have e6: "?b6 r = ?b6 r'"
    using bound6 bound6 parts(5) by (rule le_bytes_inj)
  note one = unat_bitfield_less(1) and two = unat_bitfield_less(2)
    and four = unat_bitfield_less(3) and five = unat_bitfield_less(4)
  have a1: "unat (cullMode r) = unat (cullMode r') \<and>
      unat (frontFace r) + 4 * (unat (depthBiasEnable r) +
          2 * (unat (blendEnable r) + 2 * (unat (depthWriteEnable r) +
          2 * unat (alphaToCoverageEnable r)))) =
      unat (frontFace r') + 4 * (unat (depthBiasEnable r') +
          2 * (unat (blendEnable r') + 2 * (unat (depthWriteEnable r') +
          2 * unat (alphaToCoverageEnable r'))))"
    using two two e0 by (rule packed_eq)
  have a2: "unat (frontFace r) = unat (frontFace r') \<and>
      unat (depthBiasEnable r) +
          2 * (unat (blendEnable r) + 2 * (unat (depthWriteEnable r) +
          2 * unat (alphaToCoverageEnable r))) =
      unat (depthBiasEnable r') +
          2 * (unat (blendEnable r') + 2 * (unat (depthWriteEnable r') +
          2 * unat (alphaToCoverageEnable r')))"
    using two two a1 [THEN conjunct2] by (rule packed_eq)
  have a3: "unat (depthBiasEnable r) = unat (depthBiasEnable r') \<and>
      unat (blendEnable r) + 2 * (unat (depthWriteEnable r) +
          2 * unat (alphaToCoverageEnable r)) =
      unat (blendEnable r') + 2 * (unat (depthWriteEnable r') +
          2 * unat (alphaToCoverageEnable r'))"
    using one one a2 [THEN conjunct2] by (rule packed_eq)
  have a4: "unat (blendEnable r) = unat (blendEnable r') \<and>
      unat (depthWriteEnable r) + 2 * unat (alphaToCoverageEnable r) =
      unat (depthWriteEnable r') + 2 * unat (alphaToCoverageEnable r')"
    using one one a3 [THEN conjunct2] by (rule packed_eq)
  have a5: "unat (depthWriteEnable r) = unat (depthWriteEnable r') \<and>
      unat (alphaToCoverageEnable r) = unat (alphaToCoverageEnable r')"
    using one one a4 [THEN conjunct2] by (rule packed_eq)
  have f0: "cullMode r = cullMode r'" "frontFace r = frontFace r'"
    "depthBiasEnable r = depthBiasEnable r'" "blendEnable r = blendEnable r'"
    "depthWriteEnable r = depthWriteEnable r'" "alphaToCoverageEnable r = alphaToCoverageEnable r'"
    using a1 a2 a3 a4 a5 by (simp_all add: word_unat_eq_iff)
  have c1: "unat (srcColorBlendFactor r) = unat (srcColorBlendFactor r') \<and>
      unat (dstColorBlendFactor r) +
          32 * (unat (srcAlphaBlendFactor r) + 32 * (unat (dstAlphaBlendFactor r) +
          32 * unat (colorWriteMask r))) =
      unat (dstColorBlendFactor r') +
          32 * (unat (srcAlphaBlendFactor r') + 32 * (unat (dstAlphaBlendFactor r') +
          32 * unat (colorWriteMask r')))"
    using five five e1 by (rule packed_eq)
  have c2: "unat (dstColorBlendFactor r) = unat (dstColorBlendFactor r') \<and>
      unat (srcAlphaBlendFactor r) + 32 * (unat (dstAlphaBlendFactor r) +
          32 * unat (colorWriteMask r)) =
      unat (srcAlphaBlendFactor r') + 32 * (unat (dstAlphaBlendFactor r') +
          32 * unat (colorWriteMask r'))"
    using five five c1 [THEN conjunct2] by (rule packed_eq)
  have c3: "unat (srcAlphaBlendFactor r) = unat (srcAlphaBlendFactor r') \<and>
      unat (dstAlphaBlendFactor r) + 32 * unat (colorWriteMask r) =
      unat (dstAlphaBlendFactor r') + 32 * unat (colorWriteMask r')"
    using five five c2 [THEN conjunct2] by (rule packed_eq)
  have c4: "unat (dstAlphaBlendFactor r) = unat (dstAlphaBlendFactor r') \<and>
      unat (colorWriteMask r) = unat (colorWriteMask r')"
    using five five c3 [THEN conjunct2] by (rule packed_eq)
  have f1: "srcColorBlendFactor r = srcColorBlendFactor r'"
    "dstColorBlendFactor r = dstColorBlendFactor r'"
    "srcAlphaBlendFactor r = srcAlphaBlendFactor r'"
    "dstAlphaBlendFactor r = dstAlphaBlendFactor r'"
    "colorWriteMask r = colorWriteMask r'"
    using c1 c2 c3 c4 by (simp_all add: word_unat_eq_iff)
  have d1: "unat (colorBlendOp r) = unat (colorBlendOp r') \<and>
      unat (alphaBlendOp r) = unat (alphaBlendOp r')"
    using four four e6 by (rule packed_eq)
  have f6: "colorBlendOp r = colorBlendOp r'" "alphaBlendOp r = alphaBlendOp r'"
    using d1 by (simp_all add: word_unat_eq_iff)
  show ?thesis
    using f0 f1 f6 parts(3,4,6,7,8) by (cases r, cases r') simp
qed

lemma length_vertex_bytes [simp]:
  "length (VertexInputAttributeDescription_bytes a) = 8"
  "length (VertexInputBindingDescription_bytes b) = 8"
  by (simp_all add: VertexInputAttributeDescription_bytes_def
      VertexInputBindingDescription_bytes_def)

lemma VertexInputAttributeDescription_bytes_inj:
  "VertexInputAttributeDescription_bytes a = VertexInputAttributeDescription_bytes b \<Longrightarrow> a = b"
  by (cases a, cases b) (simp add: VertexInputAttributeDescription_bytes_def)

lemma VertexInputBindingDescription_bytes_inj:
  "VertexInputBindingDescription_bytes a = VertexInputBindingDescription_bytes b \<Longrightarrow> a = b"
  by (cases a, cases b) (simp add: VertexInputBindingDescription_bytes_def)

lemma length_PipelineKey_bytes:
  assumes "PipelineKey_wf k"
  shows "length (PipelineKey_bytes k) = 320"
  using assms
  by (simp add: PipelineKey_bytes_def PipelineKey_wf_def length_concat_map_fixed [where n = 8]
      SHADER_MODULE_COUNT_def VERTEX_ATTRIBUTE_COUNT_def)

lemma PipelineKey_bytes_inj:
  assumes "PipelineKey_wf k1" and "PipelineKey_wf k2"
    and "PipelineKey_bytes k1 = PipelineKey_bytes k2"
  shows "k1 = k2"
proof -
  have len: "length (shaders k1) = length (shaders k2)"
    "length (vertexAttributes k1) = length (vertexAttributes k2)"
    "length (vertexBuffers k1) = length (vertexBuffers k2)"
    using assms(1,2) by (simp_all add: PipelineKey_wf_def)
  have parts:
    "concat (map u64_bytes (shaders k1)) = concat (map u64_bytes (shaders k2)) \<and>
     renderPass k1 = renderPass k2 \<and> topology k1 = topology k2 \<and>
     subpassIndex k1 = subpassIndex k2 \<and>
     concat (map VertexInputAttributeDescription_bytes (vertexAttributes k1)) =
       concat (map VertexInputAttributeDescription_bytes (vertexAttributes k2)) \<and>
     concat (map VertexInputBindingDescription_bytes (vertexBuffers k1)) =
       concat (map VertexInputBindingDescription_bytes (vertexBuffers k2)) \<and>
     RasterState_bytes (rasterState k1) = RasterState_bytes (rasterState k2) \<and>
     pk_padding k1 = pk_padding k2 \<and> layout k1 = layout k2"
    using assms(3) len
    by (simp add: PipelineKey_bytes_def length_concat_map_fixed [where n = 8])
  have "shaders k1 = shaders k2"
    using len(1) parts by (intro concat_map_fixed_inj [where f = u64_bytes and n = 8]) simp_all
  moreover have "vertexAttributes k1 = vertexAttributes k2"
    using len(2) parts
    by (intro concat_map_fixed_inj [where f = VertexInputAttributeDescription_bytes and n = 8])
      (simp_all add: VertexInputAttributeDescription_bytes_inj)
  moreover have "vertexBuffers k1 = vertexBuffers k2"
    using len(3) parts
    by (intro concat_map_fixed_inj [where f = VertexInputBindingDescription_bytes and n = 8])
      (simp_all add: VertexInputBindingDescription_bytes_inj)
  moreover have "rasterState k1 = rasterState k2"
    using parts by (intro RasterState_bytes_inj) simp
  ultimately show ?thesis
    using parts by (cases k1, cases k2) simp
qed

lemma zeroKey_wf: "DescriptorKey_wf zeroKey"
  by (simp add: DescriptorKey_wf_def zeroKey_def)

lemma exampleKey_wf: "DescriptorKey_wf (exampleKey b)"
  by (simp add: DescriptorKey_wf_def exampleKey_def zeroKey_def UBUFFER_BINDING_COUNT_def)

lemma zeroPipelineKey_wf: "PipelineKey_wf zeroPipelineKey"
  by (simp add: PipelineKey_wf_def zeroPipelineKey_def SHADER_MODULE_COUNT_def
      VERTEX_ATTRIBUTE_COUNT_def)

text \<open>On keys whose arrays have their declared sizes the functors are the equality of all fields.\<close>

lemma DescEqual_refl: "DescEqual k k"
  by (simp add: DescEqual_def)

lemma DescEqual_iff:
  assumes "DescriptorKey_wf k1" and "DescriptorKey_wf k2"
  shows "DescEqual k1 k2 \<longleftrightarrow> k1 = k2"
  using DescriptorKey_bytes_inj [OF assms] by (auto simp: DescEqual_def)

lemma PipelineEqual_iff:
  assumes "PipelineKey_wf k1" and "PipelineKey_wf k2"
  shows "PipelineEqual k1 k2 \<longleftrightarrow> k1 = k2"
  using PipelineKey_bytes_inj [OF assms] by (auto simp: PipelineEqual_def)

lemma exampleKey_neq_zeroKey: "exampleKey 9 \<noteq> zeroKey"
  by (simp add: exampleKey_def zeroKey_def UBUFFER_BINDING_COUNT_def replicate_numeral)

lemma DescEqual_example_zero:
  "\<not> DescEqual (exampleKey 9) zeroKey" "\<not> DescEqual zeroKey (exampleKey 9)"
  using exampleKey_neq_zeroKey
  by (auto simp: DescEqual_iff [OF exampleKey_wf zeroKey_wf] DescEqual_iff [OF zeroKey_wf exampleKey_wf])

text \<open>With the padding zero on both sides, the Vulkan structs decide the infos.\<close>

lemma zero_padded_infos_eq:
  assumes "map to_VkDescriptorImageInfo xs = map to_VkDescriptorImageInfo ys"
    and "list_all (\<lambda>info. padding info = 0) xs"
    and "list_all (\<lambda>info. padding info = 0) ys"
  shows "xs = ys"
  using assms
proof (induction xs arbitrary: ys)
  case Nil
  then show ?case by simp
next
  case (Cons a xs)
  then obtain b ys' where ys: "ys = b # ys'"
    by (cases ys) auto
  have "a = b"
    using Cons.prems unfolding ys
    by (cases a, cases b) (simp add: to_VkDescriptorImageInfo_def)
  moreover have "xs = ys'"
    using Cons.prems unfolding ys by (intro Cons.IH) simp_all
  ultimately show ?case
    by (simp add: ys)
qed

lemma sameBindings_zeroPadded:
  assumes "zeroPadded k1" and "zeroPadded k2"
  shows "sameBindings k1 k2 \<longleftrightarrow> k1 = k2"
proof
  assume same: "sameBindings k1 k2"
  have "samplers k1 = samplers k2"
    using same assms by (intro zero_padded_infos_eq) (simp_all add: sameBindings_def zeroPadded_def)
  moreover have "inputAttachments k1 = inputAttachments k2"
    using same assms by (intro zero_padded_infos_eq) (simp_all add: sameBindings_def zeroPadded_def)
  ultimately show "k1 = k2"
    using same by (cases k1, cases k2) (simp add: sameBindings_def)
next
  assume "k1 = k2"
  then show "sameBindings k1 k2"
    by (simp add: sameBindings_def)
qed

lemma samePipelineState_zero_padding:
  assumes "pk_padding k1 = 0" and "pk_padding k2 = 0"
  shows "samePipelineState k1 k2 \<longleftrightarrow> k1 = k2"
  using assms by (cases k1, cases k2) (auto simp: samePipelineState_def)

lemma zeroKey_zeroPadded: "zeroPadded zeroKey"
  by (auto simp: zeroPadded_def zeroKey_def zeroInfo_def list_all_iff)

subsection \<open>Bound descriptors are found in the cache\<close>

text \<open>A creation that returns null leaves the map as it was, or empty after a growth.\<close>

lemma createDescriptorSets_None_sets:
  assumes "createDescriptorSets x s = Inr (None, s', calls)"
  shows "mDescriptorSets s' = mDescriptorSets s \<or> mDescriptorSets s' = []"
proof -
  obtain entry where e: "owningLayout x s = Some entry"
    using owningLayout_Some by blast
  show ?thesis
  proof (cases "descriptorSetArenas entry ! 0 = []")
    case True
    show ?thesis
      using assms
      by (auto simp: createDescriptorSets_fresh [OF e True] Let_def updateAndEmplace_eq
          getOrCreatePipelineLayout_frame growDescriptorPool_def split: if_splits)
  next
    case False
    show ?thesis
      using assms
      by (auto simp: createDescriptorSets_reuse [OF e False] updateAndEmplace_eq
          split: sum.splits prod.splits)
  qed
qed

text \<open>With balanced arenas the creation yields an entry unless the driver refuses the allocation.\<close>

lemma createDescriptorSets_succeeds:
  assumes "arenaInvariant s" and "allocationResult x = VK_SUCCESS"
  shows "\<exists>s1 calls. createDescriptorSets x s = Inr (Some (mDescriptorRequirements s), s1, calls)"
proof -
  obtain entry where e: "owningLayout x s = Some entry"
    using owningLayout_Some by blast
  have bal: "arenasBalanced entry"
    using assms(1) e by (rule owningLayout_balanced)
  show ?thesis
  proof (cases "descriptorSetArenas entry ! 0 = []")
    case True
    show ?thesis
      using assms(2)
      by (simp add: createDescriptorSets_fresh [OF e True] Let_def updateAndEmplace_eq
          getOrCreatePipelineLayout_frame growDescriptorPool_frame)
  next
    case False
    show ?thesis
      by (simp add: createDescriptorSets_reuse_balanced [OF e bal False] updateAndEmplace_eq
          getOrCreatePipelineLayout_frame)
  qed
qed

lemma bindCacheEntry_requirements:
  assumes "bindCacheEntry x cmdbuffer k s1 calls = Inr (b, s', calls')"
  shows "mDescriptorRequirements s' = mDescriptorRequirements s1"
  using assms
  by (auto simp: bindCacheEntry_def Let_def getOrCreatePipelineLayout_frame split: option.splits)

text \<open>Every call that returns leaves the bound descriptors found in the cache.\<close>

lemma bindCacheEntry_boundIsCached:
  assumes "map_of (mDescriptorSets s1) (mDescriptorRequirements s1) = Some e"
    and "bindCacheEntry x cmdbuffer (mDescriptorRequirements s1) s1 calls = Inr (b, s', calls')"
  shows "boundIsCached s'"
proof -
  from bindCacheEntry_returns [OF assms(1), of x cmdbuffer calls] assms(2)
  have sets: "mDescriptorSets s' =
      touch (mDescriptorRequirements s1) (mCurrentTime s1) (mDescriptorSets s1)"
    by auto
  have req: "mDescriptorRequirements s' = mDescriptorRequirements s1"
    using assms(2) by (rule bindCacheEntry_requirements)
  show ?thesis
    using assms(1) by (simp add: boundIsCached_def sets req map_of_touch)
qed

lemma bindDescriptors_boundIsCached:
  assumes "bindDescriptors x cmdbuffer s = Inr (r, s', calls)"
  shows "boundIsCached s'"
proof (cases "alreadyBound s")
  case True
  from assms obtain e where
    e: "map_of (mDescriptorSets s) (mDescriptorRequirements s) = Some e"
    and s': "s' = s\<lparr>mDescriptorSets :=
                      touch (mDescriptorRequirements s) (mCurrentTime s) (mDescriptorSets s)\<rparr>"
    by (auto simp: bindDescriptors_fast [OF True] split: option.splits)
  show ?thesis
    using e by (simp add: boundIsCached_def s' map_of_touch)
next
  case False
  show ?thesis
  proof (cases "map_of (mDescriptorSets s) (mDescriptorRequirements s)")
    case (Some e)
    have "bindCacheEntry x cmdbuffer (mDescriptorRequirements s) s [] = Inr (r, s', calls)"
      using assms by (simp add: bindDescriptors_hit [OF False Some])
    with Some show ?thesis
      by (rule bindCacheEntry_boundIsCached)
  next
    case None
    note eq = bindDescriptors_miss [OF False None, of x cmdbuffer]
    from assms consider
      (fail) before where "createDescriptorSets x s = Inr (None, s', before)"
    | (ok) k s1 before where "createDescriptorSets x s = Inr (Some k, s1, before)"
        "bindCacheEntry x cmdbuffer k s1 before = Inr (r, s', calls)"
      by (auto simp: eq split: sum.splits prod.splits option.splits)
    then show ?thesis
    proof cases
      case fail
      have fr: "mBoundDescriptor s' = mBoundDescriptor s"
        "mDescriptorRequirements s' = mDescriptorRequirements s"
        using fail by (rule createDescriptorSets_frame)+
      from createDescriptorSets_None_sets [OF fail]
      have "\<not> (DescEqual (mBoundDescriptor s') (mDescriptorRequirements s') \<and>
                mDescriptorSets s' \<noteq> [])"
        using False by (auto simp: fr alreadyBound_def)
      then show ?thesis
        by (simp add: boundIsCached_def)
    next
      case ok
      from createDescriptorSets_Some [OF ok(1)] obtain e0 where
        k: "k = mDescriptorRequirements s" and found: "map_of (mDescriptorSets s1) k = Some e0"
        by blast
      have req: "mDescriptorRequirements s1 = mDescriptorRequirements s"
        using ok(1) by (rule createDescriptorSets_frame)
      show ?thesis
        using found ok(2) unfolding k req [symmetric]
        by (rule bindCacheEntry_boundIsCached)
    qed
  qed
qed

section \<open>The early return of \<^verbatim>\<open>bindDescriptors\<close>\<close>

text \<open>
  Outside what the source asserts before its early return, the required key being the bound
  one with no entry in a map that has others, the write of the time stamp goes through the
  end iterator of the map.
\<close>

lemma stale_bound_key_faults:
  "\<not> boundIsCached staleCache \<and>
   bindDescriptors (exampleDriver VK_SUCCESS) 7 staleCache = Inl EndIteratorDereferenced"
proof -
  have k: "zeroKey \<noteq> exampleKey 9"
    using exampleKey_neq_zeroKey by simp
  have de: "DescEqual (mBoundDescriptor staleCache) (mDescriptorRequirements staleCache) = True"
    by (simp add: DescEqual_refl staleCache_def boundCache_def freshCache_def)
  have m: "mDescriptorSets staleCache \<noteq> []"
    "map_of (mDescriptorSets staleCache) (mDescriptorRequirements staleCache) = None"
    using k by (simp_all add: staleCache_def boundCache_def freshCache_def)
  show ?thesis
    unfolding bindDescriptors_def boundIsCached_def de
    using m by (simp add: Let_def)
qed

text \<open>
  Claim C1. In every state of the cache in which, as the source asserts before its early
  return, descriptors that are already bound are found in the cache: if the required key is
  equal to the bound key and the map of descriptor sets is not empty,
  \<^verbatim>\<open>bindDescriptors\<close> makes no call at all (no creation, no allocation, no bind), returns
  true, and changes nothing but the time stamp of the entry of the required key, which
  becomes the current time. If the map is empty, the early return is not taken, whatever the
  keys: the call is the creation followed by the bind of what it returns, and with balanced
  arenas and a driver that allocates it creates an entry for the required key, binds the
  handles of that entry after the calls of the creation and the acquisition, and returns
  true with the required key bound. Every call that returns leaves the cache in a state in
  which descriptors that are already bound are found in the cache.
\<close>

theorem already_bound_returns_early:
  assumes "boundIsCached s"
  shows
    "(DescEqual (mBoundDescriptor s) (mDescriptorRequirements s) \<and> mDescriptorSets s \<noteq> [] \<longrightarrow>
        (\<exists>e. map_of (mDescriptorSets s) (mDescriptorRequirements s) = Some e \<and>
           bindDescriptors x cmdbuffer s =
             Inr (True,
                  s\<lparr>mDescriptorSets :=
                       touch (mDescriptorRequirements s) (mCurrentTime s) (mDescriptorSets s)\<rparr>,
                  []) \<and>
           map_of (touch (mDescriptorRequirements s) (mCurrentTime s) (mDescriptorSets s))
             (mDescriptorRequirements s) = Some (e\<lparr>lastUsed := mCurrentTime s\<rparr>) \<and>
           (\<forall>k. k \<noteq> mDescriptorRequirements s \<longrightarrow>
              map_of (touch (mDescriptorRequirements s) (mCurrentTime s) (mDescriptorSets s)) k =
              map_of (mDescriptorSets s) k))) \<and>
     (mDescriptorSets s = [] \<longrightarrow>
        bindDescriptors x cmdbuffer s =
          (case createDescriptorSets x s of
             Inl fault \<Rightarrow> Inl fault
           | Inr (None, s1, calls) \<Rightarrow> Inr (False, s1, calls)
           | Inr (Some cacheEntry, s1, calls) \<Rightarrow> bindCacheEntry x cmdbuffer cacheEntry s1 calls) \<and>
        (arenaInvariant s \<and> allocationResult x = VK_SUCCESS \<longrightarrow>
           (\<exists>s1 created new s' (layoutEntry :: PipelineLayoutCacheEntry).
              createDescriptorSets x s = Inr (Some (mDescriptorRequirements s), s1, created) \<and>
              map_of (mDescriptorSets s1) (mDescriptorRequirements s) = Some new \<and>
              bindDescriptors x cmdbuffer s =
                Inr (True, s',
                     created @
                     [Call_acquireAll (id_entry new) (mPipelineBoundResources s),
                      Call_vkCmdBindDescriptorSets cmdbuffer (handle layoutEntry) (handles new)]) \<and>
              mBoundDescriptor s' = mDescriptorRequirements s))) \<and>
     (\<forall>r s' calls. bindDescriptors x cmdbuffer s = Inr (r, s', calls) \<longrightarrow> boundIsCached s')"
proof (intro conjI impI allI)
  assume a: "DescEqual (mBoundDescriptor s) (mDescriptorRequirements s) \<and> mDescriptorSets s \<noteq> []"
  then have ab: "alreadyBound s"
    by (simp add: alreadyBound_def)
  from assms a obtain e where
    e: "map_of (mDescriptorSets s) (mDescriptorRequirements s) = Some e"
    by (auto simp: boundIsCached_def)
  show "\<exists>e. map_of (mDescriptorSets s) (mDescriptorRequirements s) = Some e \<and>
           bindDescriptors x cmdbuffer s =
             Inr (True,
                  s\<lparr>mDescriptorSets :=
                       touch (mDescriptorRequirements s) (mCurrentTime s) (mDescriptorSets s)\<rparr>,
                  []) \<and>
           map_of (touch (mDescriptorRequirements s) (mCurrentTime s) (mDescriptorSets s))
             (mDescriptorRequirements s) = Some (e\<lparr>lastUsed := mCurrentTime s\<rparr>) \<and>
           (\<forall>k. k \<noteq> mDescriptorRequirements s \<longrightarrow>
              map_of (touch (mDescriptorRequirements s) (mCurrentTime s) (mDescriptorSets s)) k =
              map_of (mDescriptorSets s) k)"
    by (rule exI [of _ e]) (simp add: e bindDescriptors_fast [OF ab] map_of_touch)
next
  assume empty: "mDescriptorSets s = []"
  then have nb: "\<not> alreadyBound s"
    by (simp add: alreadyBound_def)
  have miss: "map_of (mDescriptorSets s) (mDescriptorRequirements s) = None"
    using empty by simp
  show eq: "bindDescriptors x cmdbuffer s =
          (case createDescriptorSets x s of
             Inl fault \<Rightarrow> Inl fault
           | Inr (None, s1, calls) \<Rightarrow> Inr (False, s1, calls)
           | Inr (Some cacheEntry, s1, calls) \<Rightarrow> bindCacheEntry x cmdbuffer cacheEntry s1 calls)"
    by (rule bindDescriptors_miss [OF nb miss])
  assume ok: "arenaInvariant s \<and> allocationResult x = VK_SUCCESS"
  then obtain s1 created where
    c: "createDescriptorSets x s = Inr (Some (mDescriptorRequirements s), s1, created)"
    using createDescriptorSets_succeeds [of s x] by blast
  from createDescriptorSets_Some [OF c] obtain new where
    new: "map_of (mDescriptorSets s1) (mDescriptorRequirements s) = Some new"
    by blast
  have fr: "mPipelineBoundResources s1 = mPipelineBoundResources s"
    "mDescriptorRequirements s1 = mDescriptorRequirements s"
    using c by (rule createDescriptorSets_frame)+
  from bindCacheEntry_returns [OF new, of x cmdbuffer created]
  obtain s' and layoutEntry :: PipelineLayoutCacheEntry where
    bce: "bindCacheEntry x cmdbuffer (mDescriptorRequirements s) s1 created =
       Inr (True, s',
            created @ [Call_acquireAll (id_entry new) (mPipelineBoundResources s1),
                       Call_vkCmdBindDescriptorSets cmdbuffer (handle layoutEntry) (handles new)])"
    and bound: "mBoundDescriptor s' = mDescriptorRequirements s1"
    by blast
  show "\<exists>s1 created new s' (layoutEntry :: PipelineLayoutCacheEntry).
              createDescriptorSets x s = Inr (Some (mDescriptorRequirements s), s1, created) \<and>
              map_of (mDescriptorSets s1) (mDescriptorRequirements s) = Some new \<and>
              bindDescriptors x cmdbuffer s =
                Inr (True, s',
                     created @
                     [Call_acquireAll (id_entry new) (mPipelineBoundResources s),
                      Call_vkCmdBindDescriptorSets cmdbuffer (handle layoutEntry) (handles new)]) \<and>
              mBoundDescriptor s' = mDescriptorRequirements s"
  proof (intro exI conjI)
    show "createDescriptorSets x s = Inr (Some (mDescriptorRequirements s), s1, created)"
      by (rule c)
    show "map_of (mDescriptorSets s1) (mDescriptorRequirements s) = Some new"
      by (rule new)
    show "bindDescriptors x cmdbuffer s =
                Inr (True, s',
                     created @
                     [Call_acquireAll (id_entry new) (mPipelineBoundResources s),
                      Call_vkCmdBindDescriptorSets cmdbuffer (handle layoutEntry) (handles new)])"
      using bce by (simp add: eq c fr)
    show "mBoundDescriptor s' = mDescriptorRequirements s"
      using bound by (simp add: fr)
  qed
next
  fix r s' calls
  assume "bindDescriptors x cmdbuffer s = Inr (r, s', calls)"
  then show "boundIsCached s'"
    by (rule bindDescriptors_boundIsCached)
qed

theorem already_bound_returns_early_witness:
  "boundIsCached boundCache \<and>
   DescEqual (mBoundDescriptor boundCache) (mDescriptorRequirements boundCache) \<and>
   mDescriptorSets boundCache \<noteq> [] \<and>
   bindDescriptors (exampleDriver VK_SUCCESS) 7 boundCache =
     Inr (True,
          boundCache\<lparr>mDescriptorSets := [(zeroKey, exampleEntry 0 [100, 101, 102]\<lparr>lastUsed := 3\<rparr>)]\<rparr>,
          []) \<and>
   boundIsCached freshCache \<and>
   DescEqual (mBoundDescriptor freshCache) (mDescriptorRequirements freshCache) \<and>
   mDescriptorSets freshCache = [] \<and>
   arenaInvariant freshCache \<and>
   allocationResult (exampleDriver VK_SUCCESS) = VK_SUCCESS \<and>
   bindDescriptors (exampleDriver VK_SUCCESS) 7 freshCache =
     Inr (True,
          freshCache
            \<lparr>mPipelineLayouts := [(0, exampleLayout [[], [], []])],
             mDescriptorCacheEntryCount := 1,
             mDescriptorSets := [(zeroKey, exampleEntry 0 [100, 101, 102])],
             mDescriptorResources := [(0, [])]\<rparr>,
          [Call_vkAllocateDescriptorSets 1 3 [51, 52, 53],
           Call_vkUpdateDescriptorSets
             (descriptorWrites 0xFFFFFFFF exampleDummyWrite zeroKey [100, 101, 102]),
           Call_acquireAll 0 [],
           Call_vkCmdBindDescriptorSets 7 50 [100, 101, 102]]) \<and>
   boundIsCached
     (freshCache
        \<lparr>mPipelineLayouts := [(0, exampleLayout [[], [], []])],
         mDescriptorCacheEntryCount := 1,
         mDescriptorSets := [(zeroKey, exampleEntry 0 [100, 101, 102])],
         mDescriptorResources := [(0, [])]\<rparr>)"
proof -
  let ?x = "exampleDriver VK_SUCCESS"
  let ?created = "freshCache
            \<lparr>mPipelineLayouts := [(0, exampleLayout [[], [], []])],
             mDescriptorCacheEntryCount := 1,
             mDescriptorSets := [(zeroKey, exampleEntry 0 [100, 101, 102])]\<rparr>"
  have a: "boundIsCached boundCache"
    by (simp add: boundIsCached_def boundCache_def freshCache_def)
  have b: "DescEqual (mBoundDescriptor boundCache) (mDescriptorRequirements boundCache)"
    "mDescriptorSets boundCache \<noteq> []"
    by (simp_all add: DescEqual_refl boundCache_def freshCache_def)
  have t: "touch (mDescriptorRequirements boundCache) (mCurrentTime boundCache)
             (mDescriptorSets boundCache) =
           [(zeroKey, exampleEntry 0 [100, 101, 102]\<lparr>lastUsed := 3\<rparr>)]"
    by (simp add: touch_def boundCache_def freshCache_def)
  have fast: "bindDescriptors ?x 7 boundCache =
     Inr (True,
          boundCache\<lparr>mDescriptorSets := [(zeroKey, exampleEntry 0 [100, 101, 102]\<lparr>lastUsed := 3\<rparr>)]\<rparr>,
          [])"
    using already_bound_returns_early [OF a, of ?x 7] b unfolding t by blast
  have fa: "boundIsCached freshCache"
    by (simp add: boundIsCached_def freshCache_def)
  have fb: "DescEqual (mBoundDescriptor freshCache) (mDescriptorRequirements freshCache)"
    "mDescriptorSets freshCache = []" "arenaInvariant freshCache"
    "allocationResult ?x = VK_SUCCESS"
    by (simp_all add: DescEqual_refl arenaInvariant_def freshCache_def exampleDriver_def)
  have c: "createDescriptorSets ?x freshCache =
     Inr (Some zeroKey, ?created,
          [Call_vkAllocateDescriptorSets 1 3 [51, 52, 53],
           Call_vkUpdateDescriptorSets
             (descriptorWrites 0xFFFFFFFF exampleDummyWrite zeroKey [100, 101, 102])])"
    by (simp add: createDescriptorSets_def getOrCreatePipelineLayout_def poolWouldOverflow_def
        updateAndEmplace_def emplace_def freshCache_def zeroPipelineKey_def exampleLayout_def
        exampleEntry_def exampleDriver_def INITIAL_DESCRIPTOR_SET_POOL_SIZE_def
        DESCRIPTOR_TYPE_COUNT_def Let_def upt_rec replicate_numeral)
  have bce: "bindCacheEntry ?x 7 zeroKey ?created
       [Call_vkAllocateDescriptorSets 1 3 [51, 52, 53],
        Call_vkUpdateDescriptorSets
          (descriptorWrites 0xFFFFFFFF exampleDummyWrite zeroKey [100, 101, 102])] =
     Inr (True, ?created\<lparr>mDescriptorResources := [(0, [])]\<rparr>,
          [Call_vkAllocateDescriptorSets 1 3 [51, 52, 53],
           Call_vkUpdateDescriptorSets
             (descriptorWrites 0xFFFFFFFF exampleDummyWrite zeroKey [100, 101, 102]),
           Call_acquireAll 0 [],
           Call_vkCmdBindDescriptorSets 7 50 [100, 101, 102]])"
    by (simp add: bindCacheEntry_def getOrCreatePipelineLayout_def touch_def acquireAll_def
        freshCache_def zeroPipelineKey_def exampleLayout_def exampleEntry_def exampleDriver_def
        Let_def)
  note slow = already_bound_returns_early [OF fa, of ?x 7]
  have run: "bindDescriptors ?x 7 freshCache =
     Inr (True, ?created\<lparr>mDescriptorResources := [(0, [])]\<rparr>,
          [Call_vkAllocateDescriptorSets 1 3 [51, 52, 53],
           Call_vkUpdateDescriptorSets
             (descriptorWrites 0xFFFFFFFF exampleDummyWrite zeroKey [100, 101, 102]),
           Call_acquireAll 0 [],
           Call_vkCmdBindDescriptorSets 7 50 [100, 101, 102]])"
    using slow fb(2) by (simp add: c bce)
  have kept: "boundIsCached (?created\<lparr>mDescriptorResources := [(0, [])]\<rparr>)"
    using slow run by blast
  show ?thesis
    using a b fast fa fb run kept by simp
qed

section \<open>Pool growth\<close>

text \<open>
  Claim C2. \<^verbatim>\<open>createDescriptorSets\<close> calls \<^verbatim>\<open>growDescriptorPool\<close> if and only if
  the first arena of the required layout is empty and the number of active entries in the
  map of descriptor sets plus the dormant count plus one is strictly greater than the
  tracked size of the pool, and then exactly once: in every result the call returns,
  \<^verbatim>\<open>growDescriptorPool\<close> occurs once among the calls made when both conditions hold
  and not at all otherwise. With an empty first arena the call always returns, so the
  branch that grows the pool is taken whenever the two conditions hold. The sum is taken
  in the width of the size of the map and does not wrap.
\<close>

theorem growth_iff_first_arena_empty_and_overflow:
  "(\<forall>r s' calls. createDescriptorSets x s = Inr (r, s', calls) \<longrightarrow>
      count_list calls Call_growDescriptorPool =
        (if firstArenaEmpty x s \<and>
            length (mDescriptorSets s) + unat (mDescriptorArenasCount s) + 1 >
              unat (mDescriptorPoolSize s)
         then 1 else 0)) \<and>
   (firstArenaEmpty x s \<longrightarrow> (\<exists>r s' calls. createDescriptorSets x s = Inr (r, s', calls)))"
  using createDescriptorSets_growth [of x s] by (simp add: poolWouldOverflow_def)

theorem growth_iff_first_arena_empty_and_overflow_witness:
  "firstArenaEmpty (exampleDriver VK_SUCCESS) crowdedCache \<and>
   length (mDescriptorSets crowdedCache) = 1 \<and>
   unat (mDescriptorArenasCount crowdedCache) = 511 \<and>
   unat (mDescriptorPoolSize crowdedCache) = 512 \<and>
   (\<exists>r s' calls.
      createDescriptorSets (exampleDriver VK_SUCCESS) crowdedCache = Inr (r, s', calls) \<and>
      count_list calls Call_growDescriptorPool = 1) \<and>
   firstArenaEmpty (exampleDriver VK_SUCCESS) freshCache \<and>
   length (mDescriptorSets freshCache) = 0 \<and>
   unat (mDescriptorArenasCount freshCache) = 0 \<and>
   unat (mDescriptorPoolSize freshCache) = 512 \<and>
   (\<exists>r s' calls.
      createDescriptorSets (exampleDriver VK_SUCCESS) freshCache = Inr (r, s', calls) \<and>
      count_list calls Call_growDescriptorPool = 0) \<and>
   \<not> firstArenaEmpty (exampleDriver VK_SUCCESS) reuseCache \<and>
   (\<exists>r s' calls.
      createDescriptorSets (exampleDriver VK_SUCCESS) reuseCache = Inr (r, s', calls) \<and>
      count_list calls Call_growDescriptorPool = 0)"
proof -
  have a: "firstArenaEmpty (exampleDriver VK_SUCCESS) crowdedCache"
    by (simp add: firstArenaEmpty_def owningLayout_cases crowdedCache_def freshCache_def
        zeroPipelineKey_def exampleLayout_def)
  have b: "length (mDescriptorSets crowdedCache) = 1"
    "unat (mDescriptorArenasCount crowdedCache) = 511"
    "unat (mDescriptorPoolSize crowdedCache) = 512"
    by (simp_all add: crowdedCache_def freshCache_def INITIAL_DESCRIPTOR_SET_POOL_SIZE_def)
  have c: "firstArenaEmpty (exampleDriver VK_SUCCESS) freshCache"
    by (simp add: firstArenaEmpty_def owningLayout_cases freshCache_def DESCRIPTOR_TYPE_COUNT_def)
  have d: "length (mDescriptorSets freshCache) = 0"
    "unat (mDescriptorArenasCount freshCache) = 0"
    "unat (mDescriptorPoolSize freshCache) = 512"
    by (simp_all add: freshCache_def INITIAL_DESCRIPTOR_SET_POOL_SIZE_def)
  have e: "\<not> firstArenaEmpty (exampleDriver VK_SUCCESS) reuseCache"
    by (simp add: firstArenaEmpty_def reuseCache_owningLayout exampleLayout_def)
  note crowded = growth_iff_first_arena_empty_and_overflow
    [of "exampleDriver VK_SUCCESS" crowdedCache]
  note fresh = growth_iff_first_arena_empty_and_overflow
    [of "exampleDriver VK_SUCCESS" freshCache]
  note reuse = growth_iff_first_arena_empty_and_overflow
    [of "exampleDriver VK_SUCCESS" reuseCache]
  have g1: "\<exists>r s' calls.
      createDescriptorSets (exampleDriver VK_SUCCESS) crowdedCache = Inr (r, s', calls) \<and>
      count_list calls Call_growDescriptorPool = 1"
    using crowded a b by auto
  have g2: "\<exists>r s' calls.
      createDescriptorSets (exampleDriver VK_SUCCESS) freshCache = Inr (r, s', calls) \<and>
      count_list calls Call_growDescriptorPool = 0"
    using fresh c d by auto
  have "\<exists>r s' calls.
      createDescriptorSets (exampleDriver VK_SUCCESS) reuseCache = Inr (r, s', calls)"
    unfolding createDescriptorSets_reuse_balanced [OF reuseCache_owningLayout exampleLayout_balanced]
    by (simp add: updateAndEmplace_eq)
  then have g3: "\<exists>r s' calls.
      createDescriptorSets (exampleDriver VK_SUCCESS) reuseCache = Inr (r, s', calls) \<and>
      count_list calls Call_growDescriptorPool = 0"
    using reuse e by auto
  show ?thesis
    using a b c d e g1 g2 g3 by simp
qed

section \<open>A failed allocation\<close>

text \<open>
  Claim C3, as amended. If the allocation of descriptor sets from the pool fails,
  \<^verbatim>\<open>createDescriptorSets\<close> returns null and inserts nothing into the map of descriptor
  sets, and \<^verbatim>\<open>bindDescriptors\<close>, which calls it on a miss, returns false; the bound key
  and the map of trackers are as before, and the entry counter has advanced by one. The map
  of pipeline layouts holds an entry for the required layout: it is the map that the lookup
  or creation of that layout leaves, with all arenas emptied if the pool was grown. The map
  of descriptor sets, with the time stamps of its entries, and the extinct bundles are as
  before unless the pool was grown ahead of the allocation, that is unless the active
  entries plus the dormant count plus one exceeded the size of the pool: then the map is
  empty, its entries having gone to the extinct bundles.
\<close>

theorem failed_allocation_inserts_nothing:
  assumes "allocationResult x \<noteq> VK_SUCCESS" and "firstArenaEmpty x s"
  shows "\<exists>s' calls.
     createDescriptorSets x s = Inr (None, s', calls) \<and>
     (\<not> alreadyBound s \<and> map_of (mDescriptorSets s) (mDescriptorRequirements s) = None \<longrightarrow>
        bindDescriptors x cmdbuffer s = Inr (False, s', calls)) \<and>
     mBoundDescriptor s' = mBoundDescriptor s \<and>
     mDescriptorResources s' = mDescriptorResources s \<and>
     mDescriptorCacheEntryCount s' = mDescriptorCacheEntryCount s + 1 \<and>
     map_of (mPipelineLayouts s') (layout (mPipelineRequirements s)) \<noteq> None \<and>
     (if length (mDescriptorSets s) + unat (mDescriptorArenasCount s) + 1 >
           unat (mDescriptorPoolSize s)
      then mDescriptorSets s' = [] \<and>
           mExtinctDescriptorBundles s' =
             mExtinctDescriptorBundles s @ map snd (mDescriptorSets s) \<and>
           mPipelineLayouts s' =
             AList.map_ran
               (\<lambda>k e. e\<lparr>descriptorSetArenas := map (\<lambda>arena. []) (descriptorSetArenas e)\<rparr>)
               (mPipelineLayouts (getOrCreatePipelineLayout x s))
      else mDescriptorSets s' = mDescriptorSets s \<and>
           mExtinctDescriptorBundles s' = mExtinctDescriptorBundles s \<and>
           mPipelineLayouts s' = mPipelineLayouts (getOrCreatePipelineLayout x s))"
proof -
  from assms(2) obtain entry where
    e: "owningLayout x s = Some entry" and empty: "descriptorSetArenas entry ! 0 = []"
    by (auto simp: firstArenaEmpty_def split: option.splits)
  define s2 where "s2 =
    (getOrCreatePipelineLayout x s)
      \<lparr>mDescriptorCacheEntryCount := mDescriptorCacheEntryCount s + 1\<rparr>"
  define s3 where "s3 = (if poolWouldOverflow s then growDescriptorPool x s2 else s2)"
  define calls where "calls =
    (if poolWouldOverflow s then [Call_growDescriptorPool] else []) @
    [Call_vkAllocateDescriptorSets (mDescriptorPool s3) DESCRIPTOR_TYPE_COUNT
       (descriptorSetLayouts entry)]"
  have c: "createDescriptorSets x s = Inr (None, s3, calls)"
    using assms(1)
    by (simp add: createDescriptorSets_fresh [OF e empty] Let_def s3_def s2_def calls_def)
  have b: "bindDescriptors x cmdbuffer s = Inr (False, s3, calls)"
    if "\<not> alreadyBound s" and "map_of (mDescriptorSets s) (mDescriptorRequirements s) = None"
    using that by (simp add: bindDescriptors_miss c)
  have fields: "mBoundDescriptor s3 = mBoundDescriptor s"
    "mDescriptorResources s3 = mDescriptorResources s"
    "mDescriptorCacheEntryCount s3 = mDescriptorCacheEntryCount s + 1"
    by (simp_all add: s3_def s2_def getOrCreatePipelineLayout_frame growDescriptorPool_def)
  have l2: "map_of (mPipelineLayouts s2) (layout (mPipelineRequirements s)) = Some entry"
    using e by (simp add: owningLayout_def s2_def)
  have lay: "map_of (mPipelineLayouts s3) (layout (mPipelineRequirements s)) \<noteq> None"
    using l2 by (simp add: s3_def map_of_growDescriptorPool)
  have grown: "mDescriptorSets s3 = [] \<and>
           mExtinctDescriptorBundles s3 =
             mExtinctDescriptorBundles s @ map snd (mDescriptorSets s) \<and>
           mPipelineLayouts s3 =
             AList.map_ran
               (\<lambda>k e. e\<lparr>descriptorSetArenas := map (\<lambda>arena. []) (descriptorSetArenas e)\<rparr>)
               (mPipelineLayouts (getOrCreatePipelineLayout x s))"
    if "poolWouldOverflow s"
    using that
    by (simp add: s3_def s2_def getOrCreatePipelineLayout_frame growDescriptorPool_def)
  have same: "mDescriptorSets s3 = mDescriptorSets s \<and>
           mExtinctDescriptorBundles s3 = mExtinctDescriptorBundles s \<and>
           mPipelineLayouts s3 = mPipelineLayouts (getOrCreatePipelineLayout x s)"
    if "\<not> poolWouldOverflow s"
    using that by (simp add: s3_def s2_def getOrCreatePipelineLayout_frame)
  have maps: "if length (mDescriptorSets s) + unat (mDescriptorArenasCount s) + 1 >
           unat (mDescriptorPoolSize s)
      then mDescriptorSets s3 = [] \<and>
           mExtinctDescriptorBundles s3 =
             mExtinctDescriptorBundles s @ map snd (mDescriptorSets s) \<and>
           mPipelineLayouts s3 =
             AList.map_ran
               (\<lambda>k e. e\<lparr>descriptorSetArenas := map (\<lambda>arena. []) (descriptorSetArenas e)\<rparr>)
               (mPipelineLayouts (getOrCreatePipelineLayout x s))
      else mDescriptorSets s3 = mDescriptorSets s \<and>
           mExtinctDescriptorBundles s3 = mExtinctDescriptorBundles s \<and>
           mPipelineLayouts s3 = mPipelineLayouts (getOrCreatePipelineLayout x s)"
    using grown same unfolding poolWouldOverflow_def by (cases "length (mDescriptorSets s) + unat (mDescriptorArenasCount s) + 1 >
           unat (mDescriptorPoolSize s)") simp_all
  show ?thesis
  proof (intro exI conjI)
    show "createDescriptorSets x s = Inr (None, s3, calls)"
      by (rule c)
    show "\<not> alreadyBound s \<and> map_of (mDescriptorSets s) (mDescriptorRequirements s) = None \<longrightarrow>
        bindDescriptors x cmdbuffer s = Inr (False, s3, calls)"
      using b by simp
    show "mBoundDescriptor s3 = mBoundDescriptor s"
      "mDescriptorResources s3 = mDescriptorResources s"
      "mDescriptorCacheEntryCount s3 = mDescriptorCacheEntryCount s + 1"
      by (rule fields)+
    show "map_of (mPipelineLayouts s3) (layout (mPipelineRequirements s)) \<noteq> None"
      by (rule lay)
    show "if length (mDescriptorSets s) + unat (mDescriptorArenasCount s) + 1 >
           unat (mDescriptorPoolSize s)
      then mDescriptorSets s3 = [] \<and>
           mExtinctDescriptorBundles s3 =
             mExtinctDescriptorBundles s @ map snd (mDescriptorSets s) \<and>
           mPipelineLayouts s3 =
             AList.map_ran
               (\<lambda>k e. e\<lparr>descriptorSetArenas := map (\<lambda>arena. []) (descriptorSetArenas e)\<rparr>)
               (mPipelineLayouts (getOrCreatePipelineLayout x s))
      else mDescriptorSets s3 = mDescriptorSets s \<and>
           mExtinctDescriptorBundles s3 = mExtinctDescriptorBundles s \<and>
           mPipelineLayouts s3 = mPipelineLayouts (getOrCreatePipelineLayout x s)"
      by (rule maps)
  qed
qed

theorem failed_allocation_inserts_nothing_witness:
  "allocationResult (exampleDriver VK_ERROR_OUT_OF_POOL_MEMORY) \<noteq> VK_SUCCESS \<and>
   firstArenaEmpty (exampleDriver VK_ERROR_OUT_OF_POOL_MEMORY) (boundCache\<lparr>mDescriptorRequirements := exampleKey 9\<rparr>) \<and>
   \<not> alreadyBound (boundCache\<lparr>mDescriptorRequirements := exampleKey 9\<rparr>) \<and>
   map_of (mDescriptorSets (boundCache\<lparr>mDescriptorRequirements := exampleKey 9\<rparr>)) (exampleKey 9) = None \<and>
   (\<exists>s' calls.
      createDescriptorSets (exampleDriver VK_ERROR_OUT_OF_POOL_MEMORY)
          (boundCache\<lparr>mDescriptorRequirements := exampleKey 9\<rparr>) = Inr (None, s', calls) \<and>
      bindDescriptors (exampleDriver VK_ERROR_OUT_OF_POOL_MEMORY) 7
          (boundCache\<lparr>mDescriptorRequirements := exampleKey 9\<rparr>) = Inr (False, s', calls) \<and>
      mDescriptorSets s' = [(zeroKey, exampleEntry 0 [100, 101, 102])] \<and>
      mExtinctDescriptorBundles s' = [] \<and>
      mPipelineLayouts s' = [(0, exampleLayout [[], [], []]\<lparr>layoutLastUsed := 3\<rparr>)] \<and>
      mBoundDescriptor s' = zeroKey \<and>
      mDescriptorResources s' = [(0, [])] \<and>
      mDescriptorCacheEntryCount s' = 2)"
proof -
  let ?x = "exampleDriver VK_ERROR_OUT_OF_POOL_MEMORY"
  let ?s = "boundCache\<lparr>mDescriptorRequirements := exampleKey 9\<rparr>"
  have a: "allocationResult ?x \<noteq> VK_SUCCESS"
    by (simp add: exampleDriver_def)
  have b: "firstArenaEmpty ?x ?s"
    by (simp add: firstArenaEmpty_def owningLayout_cases boundCache_def freshCache_def
        zeroPipelineKey_def exampleLayout_def)
  have de: "DescEqual (mBoundDescriptor ?s) (mDescriptorRequirements ?s) = False"
    using DescEqual_example_zero by (simp add: boundCache_def freshCache_def)
  have c: "\<not> alreadyBound ?s"
    unfolding alreadyBound_def de by simp
  have d: "map_of (mDescriptorSets ?s) (exampleKey 9) = None"
    using exampleKey_neq_zeroKey by (simp add: boundCache_def freshCache_def)
  have e: "\<not> length (mDescriptorSets ?s) + unat (mDescriptorArenasCount ?s) + 1 >
             unat (mDescriptorPoolSize ?s)"
    by (simp add: boundCache_def freshCache_def INITIAL_DESCRIPTOR_SET_POOL_SIZE_def)
  have f: "mDescriptorSets ?s = [(zeroKey, exampleEntry 0 [100, 101, 102])]"
    "mExtinctDescriptorBundles ?s = []" "mBoundDescriptor ?s = zeroKey"
    "mDescriptorResources ?s = [(0, [])]" "mDescriptorCacheEntryCount ?s + 1 = 2"
    "mDescriptorRequirements ?s = exampleKey 9"
    "mPipelineLayouts (getOrCreatePipelineLayout ?x ?s) =
       [(0, exampleLayout [[], [], []]\<lparr>layoutLastUsed := 3\<rparr>)]"
    by (simp_all add: getOrCreatePipelineLayout_def boundCache_def freshCache_def
        zeroPipelineKey_def exampleLayout_def Let_def)
  from failed_allocation_inserts_nothing [OF a b, of 7] obtain s' calls where
    r: "createDescriptorSets ?x ?s = Inr (None, s', calls)"
      "\<not> alreadyBound ?s \<and> map_of (mDescriptorSets ?s) (mDescriptorRequirements ?s) = None \<longrightarrow>
         bindDescriptors ?x 7 ?s = Inr (False, s', calls)"
      "mBoundDescriptor s' = mBoundDescriptor ?s"
      "mDescriptorResources s' = mDescriptorResources ?s"
      "mDescriptorCacheEntryCount s' = mDescriptorCacheEntryCount ?s + 1"
      "if length (mDescriptorSets ?s) + unat (mDescriptorArenasCount ?s) + 1 >
           unat (mDescriptorPoolSize ?s)
       then mDescriptorSets s' = [] \<and>
           mExtinctDescriptorBundles s' =
             mExtinctDescriptorBundles ?s @ map snd (mDescriptorSets ?s) \<and>
           mPipelineLayouts s' =
             AList.map_ran
               (\<lambda>k e. e\<lparr>descriptorSetArenas := map (\<lambda>arena. []) (descriptorSetArenas e)\<rparr>)
               (mPipelineLayouts (getOrCreatePipelineLayout ?x ?s))
       else mDescriptorSets s' = mDescriptorSets ?s \<and>
           mExtinctDescriptorBundles s' = mExtinctDescriptorBundles ?s \<and>
           mPipelineLayouts s' = mPipelineLayouts (getOrCreatePipelineLayout ?x ?s)"
    by blast
  have g: "bindDescriptors ?x 7 ?s = Inr (False, s', calls)"
    using r(2) c d f(6) by simp
  have h: "mDescriptorSets s' = mDescriptorSets ?s \<and>
           mExtinctDescriptorBundles s' = mExtinctDescriptorBundles ?s \<and>
           mPipelineLayouts s' = mPipelineLayouts (getOrCreatePipelineLayout ?x ?s)"
    using r(6) e by presburger
  have "createDescriptorSets ?x ?s = Inr (None, s', calls) \<and>
      bindDescriptors ?x 7 ?s = Inr (False, s', calls) \<and>
      mDescriptorSets s' = [(zeroKey, exampleEntry 0 [100, 101, 102])] \<and>
      mExtinctDescriptorBundles s' = [] \<and>
      mPipelineLayouts s' = [(0, exampleLayout [[], [], []]\<lparr>layoutLastUsed := 3\<rparr>)] \<and>
      mBoundDescriptor s' = zeroKey \<and>
      mDescriptorResources s' = [(0, [])] \<and>
      mDescriptorCacheEntryCount s' = 2"
    using r(1,3,4,5) g h unfolding f by simp
  then have "\<exists>s' calls.
      createDescriptorSets ?x ?s = Inr (None, s', calls) \<and>
      bindDescriptors ?x 7 ?s = Inr (False, s', calls) \<and>
      mDescriptorSets s' = [(zeroKey, exampleEntry 0 [100, 101, 102])] \<and>
      mExtinctDescriptorBundles s' = [] \<and>
      mPipelineLayouts s' = [(0, exampleLayout [[], [], []]\<lparr>layoutLastUsed := 3\<rparr>)] \<and>
      mBoundDescriptor s' = zeroKey \<and>
      mDescriptorResources s' = [(0, [])] \<and>
      mDescriptorCacheEntryCount s' = 2"
    by blast
  then show ?thesis
    using a b c d unfolding f(6) by simp
qed

theorem failed_allocation_after_growth_counterexample:
  "allocationResult (exampleDriver VK_ERROR_OUT_OF_POOL_MEMORY) \<noteq> VK_SUCCESS \<and>
   returned (bindDescriptors (exampleDriver VK_ERROR_OUT_OF_POOL_MEMORY) 7 crowdedCache) = Some False \<and>
   mDescriptorSets crowdedCache = [(exampleKey 9, exampleEntry 511 [100, 101, 102])] \<and>
   map_option mDescriptorSets
     (stateOf (bindDescriptors (exampleDriver VK_ERROR_OUT_OF_POOL_MEMORY) 7 crowdedCache)) = Some [] \<and>
   map_option mPipelineLayouts
     (stateOf (bindDescriptors (exampleDriver VK_ERROR_OUT_OF_POOL_MEMORY) 7 crowdedCache)) \<noteq>
     Some (mPipelineLayouts crowdedCache)"
proof -
  have de: "DescEqual (mBoundDescriptor crowdedCache) (mDescriptorRequirements crowdedCache) = False"
    using DescEqual_example_zero by (simp add: crowdedCache_def freshCache_def)
  show ?thesis
    unfolding bindDescriptors_def de
    by (simp add: createDescriptorSets_def getOrCreatePipelineLayout_def
        growDescriptorPool_def poolWouldOverflow_def returned_def stateOf_def
        crowdedCache_def freshCache_def zeroPipelineKey_def exampleLayout_def exampleEntry_def
        exampleDriver_def exampleKey_def zeroKey_def UBUFFER_BINDING_COUNT_def
        INITIAL_DESCRIPTOR_SET_POOL_SIZE_def DESCRIPTOR_TYPE_COUNT_def Let_def replicate_numeral)
qed

section \<open>What the batched update rewrites in reused sets\<close>

text \<open>
  Claim C4, at a cache with one dormant bundle, the sets 200, 201 and 202, in the arenas of
  the required layout, and requirements that bind no sampler and no input attachment. The
  claim has every binding of a reused set rewritten by the batched update before the set is
  bound again, and the source says as much before its write phase (``rewrite every binding
  in the new descriptor sets''), giving every inactive uniform-buffer binding the dummy
  write. Here \<^verbatim>\<open>bindDescriptors\<close> reuses the three sets and binds them, and the one
  update made before holds ten writes, all to the uniform-buffer set 200: the second and
  the third loop skip a binding whose sampler or image view is null, so the bindings of the
  sampler set 201 and of the input-attachment set 202 keep what their previous use wrote.
\<close>

theorem reuse_leaves_inactive_bindings_unwritten:
  "map_of (mPipelineLayouts reuseCache) (layout (mPipelineRequirements reuseCache)) =
     Some (exampleLayout [[200], [201], [202]]) \<and>
   mDescriptorRequirements reuseCache = zeroKey \<and>
   callsOf (bindDescriptors (exampleDriver VK_SUCCESS) 7 reuseCache) =
     [Call_vkUpdateDescriptorSets
        (descriptorWrites 0xFFFFFFFF exampleDummyWrite zeroKey [200, 201, 202]),
      Call_acquireAll 1 [],
      Call_vkCmdBindDescriptorSets 7 50 [200, 201, 202]] \<and>
   map slotOf (descriptorWrites 0xFFFFFFFF exampleDummyWrite zeroKey [200, 201, 202]) =
     [(200, 0), (200, 1), (200, 2), (200, 3), (200, 4), (200, 5), (200, 6), (200, 7), (200, 8), (200, 9)]"
proof -
  let ?x = "exampleDriver VK_SUCCESS"
  let ?s1 = "reuseCache
       \<lparr>mPipelineLayouts := [(0, exampleLayout [[], [], []])],
        mDescriptorCacheEntryCount := 2,
        mDescriptorArenasCount := 0,
        mDescriptorSets := [(zeroKey, exampleEntry 1 [200, 201, 202])]\<rparr>"
  have a: "map_of (mPipelineLayouts reuseCache) (layout (mPipelineRequirements reuseCache)) =
     Some (exampleLayout [[200], [201], [202]])"
    "mDescriptorRequirements reuseCache = zeroKey"
    by (simp_all add: reuseCache_def freshCache_def zeroPipelineKey_def)
  have c: "createDescriptorSets ?x reuseCache =
     Inr (Some zeroKey, ?s1,
          [Call_vkUpdateDescriptorSets
             (descriptorWrites 0xFFFFFFFF exampleDummyWrite zeroKey [200, 201, 202])])"
    unfolding createDescriptorSets_reuse_balanced [OF reuseCache_owningLayout exampleLayout_balanced]
      by (simp add: updateAndEmplace_def emplace_def getOrCreatePipelineLayout_def
          reuseCache_def freshCache_def zeroPipelineKey_def exampleLayout_def exampleEntry_def
          exampleDriver_def Let_def)
  have nb: "\<not> alreadyBound reuseCache"
    "map_of (mDescriptorSets reuseCache) (mDescriptorRequirements reuseCache) = None"
    by (simp_all add: alreadyBound_def reuseCache_def freshCache_def)
  have b: "bindDescriptors ?x 7 reuseCache =
     bindCacheEntry ?x 7 zeroKey ?s1
       [Call_vkUpdateDescriptorSets
          (descriptorWrites 0xFFFFFFFF exampleDummyWrite zeroKey [200, 201, 202])]"
    by (simp add: bindDescriptors_miss [OF nb] c)
  have calls: "callsOf (bindDescriptors ?x 7 reuseCache) =
     [Call_vkUpdateDescriptorSets
        (descriptorWrites 0xFFFFFFFF exampleDummyWrite zeroKey [200, 201, 202]),
      Call_acquireAll 1 [],
      Call_vkCmdBindDescriptorSets 7 50 [200, 201, 202]]"
    unfolding b
    by (simp add: callsOf_def bindCacheEntry_def getOrCreatePipelineLayout_def touch_def
        acquireAll_def reuseCache_def freshCache_def zeroPipelineKey_def exampleLayout_def
        exampleEntry_def Let_def)
  have slots: "map slotOf (descriptorWrites 0xFFFFFFFF exampleDummyWrite zeroKey [200, 201, 202]) =
     [(200, 0), (200, 1), (200, 2), (200, 3), (200, 4), (200, 5), (200, 6), (200, 7), (200, 8), (200, 9)]"
  proof -
    have "map slotOf (descriptorWrites 0xFFFFFFFF exampleDummyWrite zeroKey [200, 201, 202]) =
       map (\<lambda>binding. (200, of_nat binding)) [0..<UBUFFER_BINDING_COUNT]"
      by (simp add: slotOf_descriptorWrites zeroKey_inactive)
    also have "\<dots> = [(200, 0), (200, 1), (200, 2), (200, 3), (200, 4), (200, 5), (200, 6),
       (200, 7), (200, 8), (200, 9)]"
      by (simp add: UBUFFER_BINDING_COUNT_def upt_rec)
    finally show ?thesis .
  qed
  show ?thesis
    using a calls slots by simp
qed

section \<open>The writes of the uniform-buffer bindings\<close>

text \<open>
  Claim C5. When \<^verbatim>\<open>createDescriptorSets\<close> returns an entry, on a miss, it has made exactly
  one call of \<^verbatim>\<open>vkUpdateDescriptorSets\<close>, which carries all the writes for the sets of the
  new entry. The first \<^verbatim>\<open>UBUFFER_BINDING_COUNT\<close> of them are the writes of the uniform
  bindings, one per binding and in order, into the first set of the entry. For a binding
  whose buffer is not null the write is a uniform-buffer write of one descriptor with that
  buffer, its offset and its size, the size \<^verbatim>\<open>WHOLE_SIZE\<close> replaced by
  \<^verbatim>\<open>VK_WHOLE_SIZE\<close>; for a binding whose buffer is null it is the dummy write, sent to the
  set and the binding of the slot. All the other writes go to the second or the third set,
  as sampler or input-attachment writes.
\<close>

theorem uniform_slots_get_one_write_each:
  assumes "createDescriptorSets x s = Inr (Some k, s', calls)"
    and "map_of (mDescriptorSets s) (mDescriptorRequirements s) = None"
  shows "\<exists>new writes.
     map_of (mDescriptorSets s') (mDescriptorRequirements s) = Some new \<and>
     updatesOf calls = [writes] \<and>
     UBUFFER_BINDING_COUNT \<le> length writes \<and>
     (\<forall>binding < UBUFFER_BINDING_COUNT.
        writes ! binding =
          (if uniformBuffers (mDescriptorRequirements s) ! binding \<noteq> 0
           then \<lparr>sType = VK_STRUCTURE_TYPE_WRITE_DESCRIPTOR_SET, pNext = 0,
                 dstSet = handles new ! 0, dstBinding = of_nat binding,
                 dstArrayElement = 0, descriptorCount = 1,
                 descriptorType = VK_DESCRIPTOR_TYPE_UNIFORM_BUFFER,
                 pImageInfo = None,
                 pBufferInfo = Some
                   \<lparr>buffer = uniformBuffers (mDescriptorRequirements s) ! binding,
                    offset = ucast (uniformBufferOffsets (mDescriptorRequirements s) ! binding),
                    range_size =
                      (if uniformBufferSizes (mDescriptorRequirements s) ! binding = WHOLE_SIZE x
                       then VK_WHOLE_SIZE
                       else ucast (uniformBufferSizes (mDescriptorRequirements s) ! binding))\<rparr>,
                 pTexelBufferView = 0\<rparr>
           else (mDummyBufferWriteInfo s)\<lparr>dstSet := handles new ! 0, dstBinding := of_nat binding\<rparr>)) \<and>
     (\<forall>i. UBUFFER_BINDING_COUNT \<le> i \<and> i < length writes \<longrightarrow>
        dstSet (writes ! i) = handles new ! 1 \<and>
          descriptorType (writes ! i) = VK_DESCRIPTOR_TYPE_COMBINED_IMAGE_SAMPLER \<or>
        dstSet (writes ! i) = handles new ! 2 \<and>
          descriptorType (writes ! i) = VK_DESCRIPTOR_TYPE_INPUT_ATTACHMENT)"
proof -
  let ?req = "mDescriptorRequirements s"
  from createDescriptorSets_writes [OF assms(1)] assms(2) obtain new where
    new: "map_of (mDescriptorSets s') ?req = Some new"
    and calls: "updatesOf calls =
      [descriptorWrites (WHOLE_SIZE x) (mDummyBufferWriteInfo s) ?req (handles new)]"
    by auto
  let ?U = "uniformBufferWrites (WHOLE_SIZE x) (mDummyBufferWriteInfo s) ?req (handles new)"
  let ?rest = "samplerWrites ?req (handles new) @ inputAttachmentWrites ?req (handles new)"
  let ?writes = "descriptorWrites (WHOLE_SIZE x) (mDummyBufferWriteInfo s) ?req (handles new)"
  have split: "?writes = ?U @ ?rest"
    by (simp add: descriptorWrites_def)
  have lenU: "length ?U = UBUFFER_BINDING_COUNT"
    by (rule length_uniformBufferWrites)
  have first: "?writes ! binding =
      uniformBufferWrite (WHOLE_SIZE x) (mDummyBufferWriteInfo s) ?req (handles new) binding"
    if "binding < UBUFFER_BINDING_COUNT" for binding
    using that by (simp add: split nth_append lenU nth_uniformBufferWrites)
  have later: "?writes ! i \<in> set ?rest" if "UBUFFER_BINDING_COUNT \<le> i" and "i < length ?writes" for i
  proof -
    have "?writes ! i = ?rest ! (i - UBUFFER_BINDING_COUNT)"
      using that(1) by (simp add: split nth_append lenU)
    moreover have "i - UBUFFER_BINDING_COUNT < length ?rest"
      using that by (simp add: split lenU)
    ultimately show ?thesis
      by (metis nth_mem)
  qed
  show ?thesis
  proof (intro exI conjI allI impI)
    show "map_of (mDescriptorSets s') ?req = Some new"
      by (rule new)
    show "updatesOf calls = [?writes]"
      by (rule calls)
    show "UBUFFER_BINDING_COUNT \<le> length ?writes"
      by (simp add: split lenU)
  next
    fix binding assume "binding < UBUFFER_BINDING_COUNT"
    then show "?writes ! binding =
          (if uniformBuffers ?req ! binding \<noteq> 0
           then \<lparr>sType = VK_STRUCTURE_TYPE_WRITE_DESCRIPTOR_SET, pNext = 0,
                 dstSet = handles new ! 0, dstBinding = of_nat binding,
                 dstArrayElement = 0, descriptorCount = 1,
                 descriptorType = VK_DESCRIPTOR_TYPE_UNIFORM_BUFFER,
                 pImageInfo = None,
                 pBufferInfo = Some
                   \<lparr>buffer = uniformBuffers ?req ! binding,
                    offset = ucast (uniformBufferOffsets ?req ! binding),
                    range_size =
                      (if uniformBufferSizes ?req ! binding = WHOLE_SIZE x
                       then VK_WHOLE_SIZE
                       else ucast (uniformBufferSizes ?req ! binding))\<rparr>,
                 pTexelBufferView = 0\<rparr>
           else (mDummyBufferWriteInfo s)\<lparr>dstSet := handles new ! 0, dstBinding := of_nat binding\<rparr>)"
      by (simp add: first uniformBufferWrite_def Let_def ucast_u32_u64_eq)
  next
    fix i assume "UBUFFER_BINDING_COUNT \<le> i \<and> i < length ?writes"
    then have "?writes ! i \<in> set ?rest"
      using later by blast
    then show "dstSet (?writes ! i) = handles new ! 1 \<and>
          descriptorType (?writes ! i) = VK_DESCRIPTOR_TYPE_COMBINED_IMAGE_SAMPLER \<or>
        dstSet (?writes ! i) = handles new ! 2 \<and>
          descriptorType (?writes ! i) = VK_DESCRIPTOR_TYPE_INPUT_ATTACHMENT"
      using samplerWrites_props inputAttachmentWrites_props by auto
  qed
qed

theorem uniform_slots_get_one_write_each_witness:
  "createDescriptorSets (exampleDriver VK_SUCCESS) (freshCache\<lparr>mDescriptorRequirements := texturedKey\<rparr>) =
     Inr (Some texturedKey,
          freshCache
            \<lparr>mDescriptorRequirements := texturedKey,
             mPipelineLayouts := [(0, exampleLayout [[], [], []])],
             mDescriptorCacheEntryCount := 1,
             mDescriptorSets := [(texturedKey, exampleEntry 0 [100, 101, 102])]\<rparr>,
          [Call_vkAllocateDescriptorSets 1 3 [51, 52, 53],
           Call_vkUpdateDescriptorSets
             (descriptorWrites 0xFFFFFFFF exampleDummyWrite texturedKey [100, 101, 102])]) \<and>
   map_of (mDescriptorSets (freshCache\<lparr>mDescriptorRequirements := texturedKey\<rparr>))
     (mDescriptorRequirements (freshCache\<lparr>mDescriptorRequirements := texturedKey\<rparr>)) = None \<and>
   descriptorWrites 0xFFFFFFFF exampleDummyWrite texturedKey [100, 101, 102] ! 0 =
     \<lparr>sType = VK_STRUCTURE_TYPE_WRITE_DESCRIPTOR_SET, pNext = 0, dstSet = 100, dstBinding = 0,
      dstArrayElement = 0, descriptorCount = 1,
      descriptorType = VK_DESCRIPTOR_TYPE_UNIFORM_BUFFER, pImageInfo = None,
      pBufferInfo = Some \<lparr>buffer = 9, offset = 0, range_size = VK_WHOLE_SIZE\<rparr>,
      pTexelBufferView = 0\<rparr> \<and>
   descriptorWrites 0xFFFFFFFF exampleDummyWrite texturedKey [100, 101, 102] ! 1 =
     exampleDummyWrite\<lparr>dstSet := 100, dstBinding := 1\<rparr> \<and>
   length (descriptorWrites 0xFFFFFFFF exampleDummyWrite texturedKey [100, 101, 102]) = 11 \<and>
   (dstSet (descriptorWrites 0xFFFFFFFF exampleDummyWrite texturedKey [100, 101, 102] ! 10) = 101 \<and>
      descriptorType (descriptorWrites 0xFFFFFFFF exampleDummyWrite texturedKey [100, 101, 102] ! 10) =
        VK_DESCRIPTOR_TYPE_COMBINED_IMAGE_SAMPLER \<or>
    dstSet (descriptorWrites 0xFFFFFFFF exampleDummyWrite texturedKey [100, 101, 102] ! 10) = 102 \<and>
      descriptorType (descriptorWrites 0xFFFFFFFF exampleDummyWrite texturedKey [100, 101, 102] ! 10) =
        VK_DESCRIPTOR_TYPE_INPUT_ATTACHMENT)"
proof -
  let ?s = "freshCache\<lparr>mDescriptorRequirements := texturedKey\<rparr>"
  let ?writes = "descriptorWrites 0xFFFFFFFF exampleDummyWrite texturedKey [100, 101, 102]"
  have a: "createDescriptorSets (exampleDriver VK_SUCCESS) ?s =
     Inr (Some texturedKey,
          freshCache
            \<lparr>mDescriptorRequirements := texturedKey,
             mPipelineLayouts := [(0, exampleLayout [[], [], []])],
             mDescriptorCacheEntryCount := 1,
             mDescriptorSets := [(texturedKey, exampleEntry 0 [100, 101, 102])]\<rparr>,
          [Call_vkAllocateDescriptorSets 1 3 [51, 52, 53], Call_vkUpdateDescriptorSets ?writes])"
    by (simp add: createDescriptorSets_def getOrCreatePipelineLayout_def poolWouldOverflow_def
        updateAndEmplace_def emplace_def freshCache_def zeroPipelineKey_def exampleLayout_def
        exampleEntry_def exampleDriver_def INITIAL_DESCRIPTOR_SET_POOL_SIZE_def
        DESCRIPTOR_TYPE_COUNT_def Let_def upt_rec replicate_numeral)
  have b: "map_of (mDescriptorSets ?s) (mDescriptorRequirements ?s) = None"
    by (simp add: freshCache_def)
  have len: "length ?writes = 11"
    by (simp add: descriptorWrites_def length_uniformBufferWrites samplerWrites_def
        inputAttachmentWrites_def texturedKey_active UBUFFER_BINDING_COUNT_def)
  from uniform_slots_get_one_write_each [OF a b] obtain new writes where
    new: "map_of [(texturedKey, exampleEntry 0 [100, 101, 102])] texturedKey = Some new"
    and one: "[?writes] = [writes]"
    and each: "\<forall>binding < UBUFFER_BINDING_COUNT.
        writes ! binding =
          (if uniformBuffers texturedKey ! binding \<noteq> 0
           then \<lparr>sType = VK_STRUCTURE_TYPE_WRITE_DESCRIPTOR_SET, pNext = 0,
                 dstSet = handles new ! 0, dstBinding = of_nat binding,
                 dstArrayElement = 0, descriptorCount = 1,
                 descriptorType = VK_DESCRIPTOR_TYPE_UNIFORM_BUFFER,
                 pImageInfo = None,
                 pBufferInfo = Some
                   \<lparr>buffer = uniformBuffers texturedKey ! binding,
                    offset = ucast (uniformBufferOffsets texturedKey ! binding),
                    range_size =
                      (if uniformBufferSizes texturedKey ! binding =
                          WHOLE_SIZE (exampleDriver VK_SUCCESS)
                       then VK_WHOLE_SIZE
                       else ucast (uniformBufferSizes texturedKey ! binding))\<rparr>,
                 pTexelBufferView = 0\<rparr>
           else exampleDummyWrite\<lparr>dstSet := handles new ! 0, dstBinding := of_nat binding\<rparr>)"
    and others: "\<forall>i. UBUFFER_BINDING_COUNT \<le> i \<and> i < length writes \<longrightarrow>
        dstSet (writes ! i) = handles new ! 1 \<and>
          descriptorType (writes ! i) = VK_DESCRIPTOR_TYPE_COMBINED_IMAGE_SAMPLER \<or>
        dstSet (writes ! i) = handles new ! 2 \<and>
          descriptorType (writes ! i) = VK_DESCRIPTOR_TYPE_INPUT_ATTACHMENT"
    by (simp add: freshCache_def)
  have h: "handles new ! 0 = 100" "handles new ! Suc 0 = 101" "handles new ! 2 = 102"
    "writes = ?writes"
    using new one by (auto simp: exampleEntry_def)
  have k: "uniformBuffers texturedKey ! 0 = 9" "uniformBuffers texturedKey ! Suc 0 = 0"
    "uniformBufferOffsets texturedKey ! 0 = 0"
    "uniformBufferSizes texturedKey ! 0 = WHOLE_SIZE (exampleDriver VK_SUCCESS)"
    by (simp_all add: texturedKey_def exampleKey_def zeroKey_def exampleDriver_def
        UBUFFER_BINDING_COUNT_def)
  have w0: "?writes ! 0 =
     \<lparr>sType = VK_STRUCTURE_TYPE_WRITE_DESCRIPTOR_SET, pNext = 0, dstSet = 100, dstBinding = 0,
      dstArrayElement = 0, descriptorCount = 1,
      descriptorType = VK_DESCRIPTOR_TYPE_UNIFORM_BUFFER, pImageInfo = None,
      pBufferInfo = Some \<lparr>buffer = 9, offset = 0, range_size = VK_WHOLE_SIZE\<rparr>,
      pTexelBufferView = 0\<rparr>"
    using each [rule_format, of 0] by (simp add: h k UBUFFER_BINDING_COUNT_def)
  have w1: "?writes ! 1 = exampleDummyWrite\<lparr>dstSet := 100, dstBinding := 1\<rparr>"
    using each [rule_format, of 1] by (simp add: h k UBUFFER_BINDING_COUNT_def)
  have w10: "dstSet (?writes ! 10) = 101 \<and>
      descriptorType (?writes ! 10) = VK_DESCRIPTOR_TYPE_COMBINED_IMAGE_SAMPLER \<or>
    dstSet (?writes ! 10) = 102 \<and>
      descriptorType (?writes ! 10) = VK_DESCRIPTOR_TYPE_INPUT_ATTACHMENT"
    using others [rule_format, of 10] len by (simp add: h UBUFFER_BINDING_COUNT_def)
  show ?thesis
    using a b w0 w1 len w10 by simp
qed

section \<open>Reuse of dormant descriptor sets\<close>

text \<open>
  Claim C6. On a cache miss, when the first arena of the required layout is not empty (the
  arenas of the layout being balanced, as the cache keeps them), \<^verbatim>\<open>createDescriptorSets\<close>
  takes the last set of each of the three arenas as the handles of the new entry and pops
  it, decrements the dormant count by one, and makes no call but the batched update: no
  allocation from the pool and no growth, the pool and its size staying as they were.
\<close>

theorem reuse_pops_each_arena:
  assumes "owningLayout x s = Some entry"
    and "arenasBalanced entry"
    and "descriptorSetArenas entry ! 0 \<noteq> []"
    and "map_of (mDescriptorSets s) (mDescriptorRequirements s) = None"
  shows "\<exists>s' new entry'.
     createDescriptorSets x s =
       Inr (Some (mDescriptorRequirements s), s',
            [Call_vkUpdateDescriptorSets
               (descriptorWrites (WHOLE_SIZE x) (mDummyBufferWriteInfo s) (mDescriptorRequirements s)
                  (map last (descriptorSetArenas entry)))]) \<and>
     map_of (mDescriptorSets s') (mDescriptorRequirements s) = Some new \<and>
     handles new = map last (descriptorSetArenas entry) \<and>
     map_of (mPipelineLayouts s') (layout (mPipelineRequirements s)) = Some entry' \<and>
     descriptorSetArenas entry' = map butlast (descriptorSetArenas entry) \<and>
     mDescriptorArenasCount s' = mDescriptorArenasCount s - 1 \<and>
     mDescriptorPool s' = mDescriptorPool s \<and>
     mDescriptorPoolSize s' = mDescriptorPoolSize s \<and>
     mExtinctDescriptorPools s' = mExtinctDescriptorPools s"
proof -
  have ne: "\<forall>arena \<in> set (descriptorSetArenas entry). arena \<noteq> []"
    using assms(2,3) by (rule arenasBalanced_nonempty)
  have len: "length (descriptorSetArenas entry) = DESCRIPTOR_TYPE_COUNT"
    using assms(2) by (simp add: arenasBalanced_def)
  have rec: "reclaimDescriptorSets [0..<DESCRIPTOR_TYPE_COUNT]
               (replicate DESCRIPTOR_TYPE_COUNT 0) (descriptorSetArenas entry) =
             Inr (map last (descriptorSetArenas entry), map butlast (descriptorSetArenas entry))"
    using ne by (simp add: reclaimDescriptorSets_three [OF len])
  have look: "map_of (mPipelineLayouts (getOrCreatePipelineLayout x s)) (layout (mPipelineRequirements s)) = Some entry"
    using assms(1) by (simp add: owningLayout_def)
  show ?thesis
    using assms(4) look
    by (simp add: createDescriptorSets_reuse [OF assms(1,3)] rec updateAndEmplace_eq
        getOrCreatePipelineLayout_frame map_of_emplace map_of_map_entry_same)
qed

theorem reuse_pops_each_arena_witness:
  "owningLayout (exampleDriver VK_SUCCESS) reuseCache = Some (exampleLayout [[200], [201], [202]]) \<and>
   arenasBalanced (exampleLayout [[200], [201], [202]]) \<and>
   descriptorSetArenas (exampleLayout [[200], [201], [202]]) ! 0 \<noteq> [] \<and>
   map_of (mDescriptorSets reuseCache) (mDescriptorRequirements reuseCache) = None \<and>
   (\<exists>s' new entry'.
      createDescriptorSets (exampleDriver VK_SUCCESS) reuseCache =
        Inr (Some zeroKey, s',
             [Call_vkUpdateDescriptorSets
                (descriptorWrites 0xFFFFFFFF exampleDummyWrite zeroKey [200, 201, 202])]) \<and>
      map_of (mDescriptorSets s') zeroKey = Some new \<and>
      handles new = [200, 201, 202] \<and>
      map_of (mPipelineLayouts s') 0 = Some entry' \<and>
      descriptorSetArenas entry' = [[], [], []] \<and>
      mDescriptorArenasCount s' = 0)"
proof -
  have a: "owningLayout (exampleDriver VK_SUCCESS) reuseCache = Some (exampleLayout [[200], [201], [202]])"
    by (simp add: owningLayout_cases reuseCache_def freshCache_def zeroPipelineKey_def
        exampleLayout_def)
  have b: "arenasBalanced (exampleLayout [[200], [201], [202]])"
    by (simp add: arenasBalanced_def exampleLayout_def DESCRIPTOR_TYPE_COUNT_def)
  have c: "descriptorSetArenas (exampleLayout [[200], [201], [202]]) ! 0 \<noteq> []"
    by (simp add: exampleLayout_def)
  have d: "map_of (mDescriptorSets reuseCache) (mDescriptorRequirements reuseCache) = None"
    by (simp add: reuseCache_def freshCache_def)
  have e: "mDescriptorRequirements reuseCache = zeroKey"
    "mDummyBufferWriteInfo reuseCache = exampleDummyWrite"
    "layout (mPipelineRequirements reuseCache) = 0"
    "mDescriptorArenasCount reuseCache - 1 = 0"
    "WHOLE_SIZE (exampleDriver VK_SUCCESS) = 0xFFFFFFFF"
    "map last (descriptorSetArenas (exampleLayout [[200], [201], [202]])) = [200, 201, 202]"
    "map butlast (descriptorSetArenas (exampleLayout [[200], [201], [202]])) = [[], [], []]"
    by (simp_all add: reuseCache_def freshCache_def exampleLayout_def exampleDriver_def
        zeroPipelineKey_def)
  show ?thesis
    using reuse_pops_each_arena [OF a b c d] a b c d
    unfolding e by auto
qed

section \<open>Acquisition of the bound resources\<close>

text \<open>
  Claim C7, as amended. On every call of \<^verbatim>\<open>bindDescriptors\<close> that returns true without
  taking the early return, on a hit as on a miss, the tracker found in the map of trackers
  under the id of the cache entry, or a new empty tracker put there first if the id has
  none, acquires all the resources of the tracker of the pipeline; this comes after the
  calls of the creation, if any, and right before the bind call. (The early return acquires
  nothing.)
\<close>

theorem bind_acquires_into_the_entry_tracker:
  assumes "\<not> alreadyBound s" and "bindDescriptors x cmdbuffer s = Inr (True, s', calls)"
  shows "\<exists>e tracker before (layoutEntry :: PipelineLayoutCacheEntry).
     map_of (mDescriptorSets s') (mDescriptorRequirements s) = Some e \<and>
     map_of (mDescriptorResources s') (id_entry e) = Some tracker \<and>
     tracker =
       acquireAll (case map_of (mDescriptorResources s) (id_entry e) of
                     None \<Rightarrow> [] | Some old \<Rightarrow> old)
         (mPipelineBoundResources s) \<and>
     set (mPipelineBoundResources s) \<subseteq> set tracker \<and>
     calls = before @
       [Call_acquireAll (id_entry e) (mPipelineBoundResources s),
        Call_vkCmdBindDescriptorSets cmdbuffer (handle layoutEntry) (handles e)]"
proof -
  have step: "\<exists>e tracker (layoutEntry :: PipelineLayoutCacheEntry).
     map_of (mDescriptorSets s') k = Some e \<and>
     map_of (mDescriptorResources s') (id_entry e) = Some tracker \<and>
     tracker =
       acquireAll (case map_of (mDescriptorResources s1) (id_entry e) of
                     None \<Rightarrow> [] | Some old \<Rightarrow> old)
         (mPipelineBoundResources s1) \<and>
     set (mPipelineBoundResources s1) \<subseteq> set tracker \<and>
     calls = before @
       [Call_acquireAll (id_entry e) (mPipelineBoundResources s1),
        Call_vkCmdBindDescriptorSets cmdbuffer (handle layoutEntry) (handles e)]"
    if found: "map_of (mDescriptorSets s1) k = Some e0"
      and run: "bindCacheEntry x cmdbuffer k s1 before = Inr (True, s', calls)"
    for s1 k e0 before
  proof -
    from bindCacheEntry_returns [OF found, of x cmdbuffer before] run
    obtain layoutEntry :: PipelineLayoutCacheEntry where
      calls: "calls = before @
         [Call_acquireAll (id_entry e0) (mPipelineBoundResources s1),
          Call_vkCmdBindDescriptorSets cmdbuffer (handle layoutEntry) (handles e0)]"
      and sets: "mDescriptorSets s' = touch k (mCurrentTime s1) (mDescriptorSets s1)"
      and res: "map_of (mDescriptorResources s') (id_entry e0) =
         Some (acquireAll (case map_of (mDescriptorResources s1) (id_entry e0) of
                             None \<Rightarrow> [] | Some tracker \<Rightarrow> tracker)
                 (mPipelineBoundResources s1))"
      by auto
    have look: "map_of (mDescriptorSets s') k = Some (e0\<lparr>lastUsed := mCurrentTime s1\<rparr>)"
      using found by (simp add: sets map_of_touch)
    show ?thesis
    proof (intro exI conjI)
      show "map_of (mDescriptorSets s') k = Some (e0\<lparr>lastUsed := mCurrentTime s1\<rparr>)"
        by (rule look)
      show "map_of (mDescriptorResources s') (id_entry (e0\<lparr>lastUsed := mCurrentTime s1\<rparr>)) =
         Some (acquireAll (case map_of (mDescriptorResources s1) (id_entry e0) of
                             None \<Rightarrow> [] | Some tracker \<Rightarrow> tracker)
                 (mPipelineBoundResources s1))"
        using res by simp
      show "acquireAll (case map_of (mDescriptorResources s1) (id_entry e0) of
                             None \<Rightarrow> [] | Some tracker \<Rightarrow> tracker)
                 (mPipelineBoundResources s1) =
            acquireAll (case map_of (mDescriptorResources s1)
                               (id_entry (e0\<lparr>lastUsed := mCurrentTime s1\<rparr>)) of
                          None \<Rightarrow> [] | Some old \<Rightarrow> old)
              (mPipelineBoundResources s1)"
        by simp
      show "set (mPipelineBoundResources s1) \<subseteq>
            set (acquireAll (case map_of (mDescriptorResources s1) (id_entry e0) of
                             None \<Rightarrow> [] | Some tracker \<Rightarrow> tracker)
                 (mPipelineBoundResources s1))"
        by (simp add: acquireAll_def)
      show "calls = before @
         [Call_acquireAll (id_entry (e0\<lparr>lastUsed := mCurrentTime s1\<rparr>)) (mPipelineBoundResources s1),
          Call_vkCmdBindDescriptorSets cmdbuffer (handle layoutEntry)
            (handles (e0\<lparr>lastUsed := mCurrentTime s1\<rparr>))]"
        using calls by simp
    qed
  qed
  show ?thesis
  proof (cases "map_of (mDescriptorSets s) (mDescriptorRequirements s)")
    case (Some e0)
    have "bindCacheEntry x cmdbuffer (mDescriptorRequirements s) s [] = Inr (True, s', calls)"
      using assms(2) by (simp add: bindDescriptors_hit [OF assms(1) Some])
    from step [OF Some this] show ?thesis
      by blast
  next
    case None
    note eq = bindDescriptors_miss [OF assms(1) None, of x cmdbuffer]
    from assms(2) obtain k s1 before where
      c: "createDescriptorSets x s = Inr (Some k, s1, before)"
      and run: "bindCacheEntry x cmdbuffer k s1 before = Inr (True, s', calls)"
      by (auto simp: eq split: sum.splits prod.splits option.splits)
    from createDescriptorSets_Some [OF c] obtain e0 where
      k: "k = mDescriptorRequirements s" and found: "map_of (mDescriptorSets s1) k = Some e0"
      by blast
    have fr: "mDescriptorResources s1 = mDescriptorResources s"
      "mPipelineBoundResources s1 = mPipelineBoundResources s"
      using c by (rule createDescriptorSets_frame)+
    from step [OF found run] show ?thesis
      unfolding fr k by blast
  qed
qed

theorem bind_acquires_into_the_entry_tracker_witness:
  "\<not> alreadyBound (boundCache\<lparr>mBoundDescriptor := exampleKey 9\<rparr>) \<and>
   bindDescriptors (exampleDriver VK_SUCCESS) 7 (boundCache\<lparr>mBoundDescriptor := exampleKey 9\<rparr>) =
     Inr (True,
          boundCache
            \<lparr>mPipelineLayouts := [(0, exampleLayout [[], [], []]\<lparr>layoutLastUsed := 3\<rparr>)],
             mDescriptorSets := [(zeroKey, exampleEntry 0 [100, 101, 102]\<lparr>lastUsed := 3\<rparr>)],
             mDescriptorResources := [(0, [5])]\<rparr>,
          [Call_acquireAll 0 [5], Call_vkCmdBindDescriptorSets 7 50 [100, 101, 102]]) \<and>
   (\<exists>e tracker.
      map_of [(zeroKey, exampleEntry 0 [100, 101, 102]\<lparr>lastUsed := 3\<rparr>)] zeroKey = Some e \<and>
      map_of [(0, [5])] (id_entry e) = Some tracker \<and>
      set [5] \<subseteq> set tracker)"
proof -
  have k: "exampleKey 9 \<noteq> zeroKey"
    by (simp add: exampleKey_def zeroKey_def UBUFFER_BINDING_COUNT_def replicate_numeral)
  have de: "DescEqual (mBoundDescriptor (boundCache\<lparr>mBoundDescriptor := exampleKey 9\<rparr>))
              (mDescriptorRequirements (boundCache\<lparr>mBoundDescriptor := exampleKey 9\<rparr>)) = False"
    using DescEqual_example_zero by (simp add: boundCache_def freshCache_def)
  have a: "\<not> alreadyBound (boundCache\<lparr>mBoundDescriptor := exampleKey 9\<rparr>)"
    unfolding alreadyBound_def de by simp
  have b: "bindDescriptors (exampleDriver VK_SUCCESS) 7 (boundCache\<lparr>mBoundDescriptor := exampleKey 9\<rparr>) =
     Inr (True,
          boundCache
            \<lparr>mPipelineLayouts := [(0, exampleLayout [[], [], []]\<lparr>layoutLastUsed := 3\<rparr>)],
             mDescriptorSets := [(zeroKey, exampleEntry 0 [100, 101, 102]\<lparr>lastUsed := 3\<rparr>)],
             mDescriptorResources := [(0, [5])]\<rparr>,
          [Call_acquireAll 0 [5], Call_vkCmdBindDescriptorSets 7 50 [100, 101, 102]])"
    using k unfolding bindDescriptors_def de
    by (simp add: bindCacheEntry_def getOrCreatePipelineLayout_def
        touch_def acquireAll_def boundCache_def freshCache_def zeroPipelineKey_def
        exampleLayout_def exampleEntry_def Let_def)
  have c: "mDescriptorRequirements (boundCache\<lparr>mBoundDescriptor := exampleKey 9\<rparr>) = zeroKey"
    "mPipelineBoundResources (boundCache\<lparr>mBoundDescriptor := exampleKey 9\<rparr>) = [5]"
    by (simp_all add: boundCache_def freshCache_def)
  show ?thesis
    using bind_acquires_into_the_entry_tracker [OF a b] a b
    unfolding c by auto
qed

theorem early_return_acquires_nothing_counterexample:
  "bindDescriptors (exampleDriver VK_SUCCESS) 7 boundCache =
     Inr (True,
          boundCache\<lparr>mDescriptorSets := [(zeroKey, exampleEntry 0 [100, 101, 102]\<lparr>lastUsed := 3\<rparr>)]\<rparr>,
          []) \<and>
   mPipelineBoundResources boundCache = [5] \<and>
   mDescriptorResources
     (boundCache\<lparr>mDescriptorSets := [(zeroKey, exampleEntry 0 [100, 101, 102]\<lparr>lastUsed := 3\<rparr>)]\<rparr>) =
     [(0, [])]"
  by (simp add: bindDescriptors_def touch_def DescEqual_refl boundCache_def freshCache_def Let_def)

section \<open>Equality and hash of the keys\<close>

text \<open>
  Claim C8. For descriptor keys and for pipeline keys, keys that the equality functor of
  the cache holds equal have equal hash values, whatever the function that mixes the bytes:
  the functor compares, and the hash mixes, the byte image of the key. The hash reads all of
  that image: keys that no mixing function tells apart are equal for the functor. For keys
  whose arrays have their declared sizes the image has the 1672, respectively 320, bytes of
  the struct, so that it holds nothing but the declared fields, and the functor holds two
  keys equal exactly when all their fields are equal, the padding fields among them. For zero-initialised keys the padding has no part in the
  result: where the padding of both keys is zero, as it is in the zero-initialised keys and
  in every sampler info written by the assignment operator, two keys are equal for the
  functor exactly when they agree on all the other fields, and then their hash values
  are equal.
\<close>

theorem equal_keys_have_equal_hashes:
  "(DescEqual k1 k2 \<longrightarrow> DescHashFn murmur3 k1 = DescHashFn murmur3 k2) \<and>
   (PipelineEqual p1 p2 \<longrightarrow> PipelineHashFn murmur3 p1 = PipelineHashFn murmur3 p2) \<and>
   ((\<forall>mix :: u8 list \<Rightarrow> bool. DescHashFn mix k1 = DescHashFn mix k2) \<longrightarrow> DescEqual k1 k2) \<and>
   ((\<forall>mix :: u8 list \<Rightarrow> bool. PipelineHashFn mix p1 = PipelineHashFn mix p2) \<longrightarrow>
      PipelineEqual p1 p2) \<and>
   (DescriptorKey_wf k1 \<and> DescriptorKey_wf k2 \<longrightarrow>
      length (DescriptorKey_bytes k1) = 1672 \<and>
      (DescEqual k1 k2 \<longleftrightarrow> k1 = k2) \<and>
      (zeroPadded k1 \<and> zeroPadded k2 \<longrightarrow>
         (DescEqual k1 k2 \<longleftrightarrow> sameBindings k1 k2) \<and>
         (sameBindings k1 k2 \<longrightarrow> DescHashFn murmur3 k1 = DescHashFn murmur3 k2))) \<and>
   (PipelineKey_wf p1 \<and> PipelineKey_wf p2 \<longrightarrow>
      length (PipelineKey_bytes p1) = 320 \<and>
      (PipelineEqual p1 p2 \<longleftrightarrow> p1 = p2) \<and>
      (pk_padding p1 = 0 \<and> pk_padding p2 = 0 \<longrightarrow>
         (PipelineEqual p1 p2 \<longleftrightarrow> samePipelineState p1 p2) \<and>
         (samePipelineState p1 p2 \<longrightarrow> PipelineHashFn murmur3 p1 = PipelineHashFn murmur3 p2))) \<and>
   zeroPadded zeroKey \<and> pk_padding zeroPipelineKey = 0 \<and>
   padding (DescriptorImageInfo_assign a that) = 0 \<and>
   to_VkDescriptorImageInfo (DescriptorImageInfo_assign a that) = that"
proof (intro conjI impI)
  show "DescHashFn murmur3 k1 = DescHashFn murmur3 k2" if "DescEqual k1 k2"
    using that by (simp add: DescEqual_def DescHashFn_def MurmurHashFn_def)
  show "PipelineHashFn murmur3 p1 = PipelineHashFn murmur3 p2" if "PipelineEqual p1 p2"
    using that by (simp add: PipelineEqual_def PipelineHashFn_def MurmurHashFn_def)
  show "DescEqual k1 k2"
    if "\<forall>mix :: u8 list \<Rightarrow> bool. DescHashFn mix k1 = DescHashFn mix k2"
    using that [rule_format, of "\<lambda>bytes. bytes = DescriptorKey_bytes k1"]
    by (simp add: DescEqual_def DescHashFn_def MurmurHashFn_def)
  show "PipelineEqual p1 p2"
    if "\<forall>mix :: u8 list \<Rightarrow> bool. PipelineHashFn mix p1 = PipelineHashFn mix p2"
    using that [rule_format, of "\<lambda>bytes. bytes = PipelineKey_bytes p1"]
    by (simp add: PipelineEqual_def PipelineHashFn_def MurmurHashFn_def)
  show "length (DescriptorKey_bytes k1) = 1672" if "DescriptorKey_wf k1 \<and> DescriptorKey_wf k2"
    using that by (simp add: length_DescriptorKey_bytes)
  show "DescEqual k1 k2 \<longleftrightarrow> k1 = k2" if "DescriptorKey_wf k1 \<and> DescriptorKey_wf k2"
    using that by (simp add: DescEqual_iff)
  show "DescEqual k1 k2 \<longleftrightarrow> sameBindings k1 k2"
    if "DescriptorKey_wf k1 \<and> DescriptorKey_wf k2" and "zeroPadded k1 \<and> zeroPadded k2"
    using that by (simp add: DescEqual_iff sameBindings_zeroPadded)
  show "DescHashFn murmur3 k1 = DescHashFn murmur3 k2"
    if "zeroPadded k1 \<and> zeroPadded k2" and "sameBindings k1 k2"
    using that by (simp add: sameBindings_zeroPadded)
  show "length (PipelineKey_bytes p1) = 320" if "PipelineKey_wf p1 \<and> PipelineKey_wf p2"
    using that by (simp add: length_PipelineKey_bytes)
  show "PipelineEqual p1 p2 \<longleftrightarrow> p1 = p2" if "PipelineKey_wf p1 \<and> PipelineKey_wf p2"
    using that by (simp add: PipelineEqual_iff)
  show "PipelineEqual p1 p2 \<longleftrightarrow> samePipelineState p1 p2"
    if "PipelineKey_wf p1 \<and> PipelineKey_wf p2" and "pk_padding p1 = 0 \<and> pk_padding p2 = 0"
    using that by (simp add: PipelineEqual_iff samePipelineState_zero_padding)
  show "PipelineHashFn murmur3 p1 = PipelineHashFn murmur3 p2"
    if "pk_padding p1 = 0 \<and> pk_padding p2 = 0" and "samePipelineState p1 p2"
    using that by (simp add: samePipelineState_zero_padding)
  show "zeroPadded zeroKey"
    by (rule zeroKey_zeroPadded)
  show "pk_padding zeroPipelineKey = 0"
    by (simp add: zeroPipelineKey_def)
  show "padding (DescriptorImageInfo_assign a that) = 0"
    by (simp add: DescriptorImageInfo_assign_def)
  show "to_VkDescriptorImageInfo (DescriptorImageInfo_assign a that) = that"
    by (simp add: DescriptorImageInfo_assign_def to_VkDescriptorImageInfo_def)
qed

theorem equal_keys_have_equal_hashes_witness:
  "DescriptorKey_wf zeroKey \<and> DescriptorKey_wf (exampleKey 9) \<and> DescriptorKey_wf paddedKey \<and>
   zeroPadded zeroKey \<and> zeroPadded (exampleKey 9) \<and> \<not> zeroPadded paddedKey \<and>
   PipelineKey_wf zeroPipelineKey \<and> pk_padding zeroPipelineKey = 0 \<and>
   DescEqual zeroKey zeroKey \<and> PipelineEqual zeroPipelineKey zeroPipelineKey \<and>
   length (DescHashFn (\<lambda>bytes. bytes) zeroKey) = 1672 \<and>
   length (PipelineHashFn (\<lambda>bytes. bytes) zeroPipelineKey) = 320 \<and>
   \<not> sameBindings zeroKey (exampleKey 9) \<and> \<not> DescEqual zeroKey (exampleKey 9) \<and>
   (\<exists>mix :: u8 list \<Rightarrow> bool. DescHashFn mix zeroKey \<noteq> DescHashFn mix (exampleKey 9)) \<and>
   sameBindings zeroKey paddedKey \<and> \<not> DescEqual zeroKey paddedKey \<and>
   (\<exists>mix :: u8 list \<Rightarrow> bool. DescHashFn mix zeroKey \<noteq> DescHashFn mix paddedKey)"
proof -
  note same = equal_keys_have_equal_hashes
    [where ?k1.0 = zeroKey and ?k2.0 = zeroKey and ?murmur3.0 = "\<lambda>bytes :: u8 list. bytes"
       and ?p1.0 = zeroPipelineKey and ?p2.0 = zeroPipelineKey and a = zeroInfo
       and that = "to_VkDescriptorImageInfo zeroInfo"]
  note other = equal_keys_have_equal_hashes
    [where ?k1.0 = zeroKey and ?k2.0 = "exampleKey 9" and ?murmur3.0 = "\<lambda>bytes :: u8 list. bytes"
       and ?p1.0 = zeroPipelineKey and ?p2.0 = zeroPipelineKey and a = zeroInfo
       and that = "to_VkDescriptorImageInfo zeroInfo"]
  note padded = equal_keys_have_equal_hashes
    [where ?k1.0 = zeroKey and ?k2.0 = paddedKey and ?murmur3.0 = "\<lambda>bytes :: u8 list. bytes"
       and ?p1.0 = zeroPipelineKey and ?p2.0 = zeroPipelineKey and a = zeroInfo
       and that = "to_VkDescriptorImageInfo zeroInfo"]
  have wf: "DescriptorKey_wf zeroKey" "DescriptorKey_wf (exampleKey 9)" "DescriptorKey_wf paddedKey"
    "PipelineKey_wf zeroPipelineKey"
    by (simp_all add: DescriptorKey_wf_def PipelineKey_wf_def paddedKey_def exampleKey_def
        zeroKey_def zeroPipelineKey_def UBUFFER_BINDING_COUNT_def SAMPLER_BINDING_COUNT_def
        INPUT_ATTACHMENT_COUNT_def SHADER_MODULE_COUNT_def VERTEX_ATTRIBUTE_COUNT_def)
  have zp: "zeroPadded zeroKey" "zeroPadded (exampleKey 9)"
    by (auto simp: zeroPadded_def exampleKey_def zeroKey_def zeroInfo_def list_all_iff)
  have zq: "\<not> zeroPadded paddedKey" "pk_padding zeroPipelineKey = 0"
    by (simp_all add: zeroPadded_def paddedKey_def zeroKey_def zeroInfo_def zeroPipelineKey_def)
  have eq: "DescEqual zeroKey zeroKey" "PipelineEqual zeroPipelineKey zeroPipelineKey"
    by (simp_all add: DescEqual_def PipelineEqual_def)
  have len: "length (DescHashFn (\<lambda>bytes. bytes) zeroKey) = 1672"
    "length (PipelineHashFn (\<lambda>bytes. bytes) zeroPipelineKey) = 320"
    using same wf by (simp_all add: DescHashFn_def PipelineHashFn_def MurmurHashFn_def)
  have ns: "\<not> sameBindings zeroKey (exampleKey 9)"
    by (simp add: sameBindings_def exampleKey_def zeroKey_def UBUFFER_BINDING_COUNT_def
        replicate_numeral)
  have ne: "\<not> DescEqual zeroKey (exampleKey 9)"
    using other wf zp ns by blast
  have nh: "\<exists>mix :: u8 list \<Rightarrow> bool. DescHashFn mix zeroKey \<noteq> DescHashFn mix (exampleKey 9)"
    using other ne by blast
  have sp: "sameBindings zeroKey paddedKey"
    by (simp add: sameBindings_def paddedKey_def zeroKey_def zeroInfo_def
        to_VkDescriptorImageInfo_def SAMPLER_BINDING_COUNT_def replicate_numeral)
  have "zeroKey \<noteq> paddedKey"
    by (simp add: paddedKey_def zeroKey_def zeroInfo_def SAMPLER_BINDING_COUNT_def
        replicate_numeral)
  then have np: "\<not> DescEqual zeroKey paddedKey"
    using padded wf by blast
  have nph: "\<exists>mix :: u8 list \<Rightarrow> bool. DescHashFn mix zeroKey \<noteq> DescHashFn mix paddedKey"
    using padded np by blast
  show ?thesis
    using wf zp zq eq len ns ne nh sp np nph by simp
qed

section \<open>The arenas of a layout stay balanced\<close>

text \<open>
  Claim C9. The arenas of every layout entry hold the same number of sets, and
  \<^verbatim>\<open>createDescriptorSets\<close> keeps it so: from a cache whose layout entries all have balanced
  arenas the call returns a cache with the same property, and the arenas of the required
  layout are left as they were when the first of them is empty, and have each lost exactly
  their last set otherwise. In the second case none of them was empty, so looking at the
  first arena alone decides whether a full bundle is there.
\<close>

theorem arenas_stay_balanced:
  assumes "arenaInvariant s"
  shows "\<exists>entry r s' calls entry'.
     owningLayout x s = Some entry \<and>
     createDescriptorSets x s = Inr (r, s', calls) \<and>
     arenaInvariant s' \<and>
     map_of (mPipelineLayouts s') (layout (mPipelineRequirements s)) = Some entry' \<and>
     (if descriptorSetArenas entry ! 0 = []
      then descriptorSetArenas entry' = descriptorSetArenas entry
      else descriptorSetArenas entry' = map butlast (descriptorSetArenas entry) \<and>
           (\<forall>arena \<in> set (descriptorSetArenas entry). arena \<noteq> []))"
proof -
  obtain entry where e: "owningLayout x s = Some entry"
    using owningLayout_Some by blast
  have bal: "arenasBalanced entry"
    using assms e by (rule owningLayout_balanced)
  define s2 where "s2 = (getOrCreatePipelineLayout x s)\<lparr>mDescriptorCacheEntryCount := mDescriptorCacheEntryCount s + 1\<rparr>"
  have inv2: "arenaInvariant s2"
    using arenaInvariant_getOrCreate [OF assms, of x] by (simp add: s2_def arenaInvariant_def)
  have look2: "map_of (mPipelineLayouts s2) (layout (mPipelineRequirements s)) = Some entry"
    using e by (simp add: s2_def owningLayout_def)
  show ?thesis
  proof (cases "descriptorSetArenas entry ! 0 = []")
    case True
    define s3 where "s3 = (if poolWouldOverflow s then growDescriptorPool x s2 else s2)"
    have inv3: "arenaInvariant s3"
      using inv2 by (simp add: s3_def arenaInvariant_grow)
    have "\<exists>entry'. map_of (mPipelineLayouts s3) (layout (mPipelineRequirements s)) = Some entry' \<and>
            descriptorSetArenas entry' = descriptorSetArenas entry"
      using look2 arenasBalanced_all_empty [OF bal True]
      by (simp add: s3_def map_of_growDescriptorPool)
    then obtain entry' where
      look3: "map_of (mPipelineLayouts s3) (layout (mPipelineRequirements s)) = Some entry'"
      and same: "descriptorSetArenas entry' = descriptorSetArenas entry"
      by blast
    have "\<exists>r s' calls. createDescriptorSets x s = Inr (r, s', calls) \<and>
            mPipelineLayouts s' = mPipelineLayouts s3"
      by (simp add: createDescriptorSets_fresh [OF e True] Let_def updateAndEmplace_eq
          s3_def [symmetric] s2_def [symmetric])
    then obtain r s' calls where
      res: "createDescriptorSets x s = Inr (r, s', calls)"
      and lay: "mPipelineLayouts s' = mPipelineLayouts s3"
      by blast
    have "arenaInvariant s'"
      using inv3 lay by (simp add: arenaInvariant_def)
    with e res look3 same lay True show ?thesis
      by auto
  next
    case False
    have ne: "\<forall>arena \<in> set (descriptorSetArenas entry). arena \<noteq> []"
      using bal False by (rule arenasBalanced_nonempty)
    have len: "length (descriptorSetArenas entry) = DESCRIPTOR_TYPE_COUNT"
      using bal by (simp add: arenasBalanced_def)
    have rec: "reclaimDescriptorSets [0..<DESCRIPTOR_TYPE_COUNT]
                 (replicate DESCRIPTOR_TYPE_COUNT 0) (descriptorSetArenas entry) =
               Inr (map last (descriptorSetArenas entry), map butlast (descriptorSetArenas entry))"
      using ne by (simp add: reclaimDescriptorSets_three [OF len])
    define lays where "lays = AList.map_entry (layout (mPipelineRequirements s))
        (\<lambda>e. e\<lparr>descriptorSetArenas := map butlast (descriptorSetArenas entry)\<rparr>)
        (mPipelineLayouts (getOrCreatePipelineLayout x s))"
    have "\<exists>r s' calls. createDescriptorSets x s = Inr (r, s', calls) \<and> mPipelineLayouts s' = lays"
      by (simp add: createDescriptorSets_reuse [OF e False] rec updateAndEmplace_eq lays_def)
    then obtain r s' calls where
      res: "createDescriptorSets x s = Inr (r, s', calls)"
      and lay: "mPipelineLayouts s' = lays"
      by blast
    have popped: "arenasBalanced (v\<lparr>descriptorSetArenas := map butlast (descriptorSetArenas entry)\<rparr>)" for v
      using arenasBalanced_popped [OF bal]
      by (simp add: arenasBalanced_def)
    have "list_all (\<lambda>(k, v). arenasBalanced v) lays"
      unfolding lays_def
      using arenaInvariant_getOrCreate [OF assms, of x, unfolded arenaInvariant_def]
      by (rule list_all_map_entry) (rule popped)
    then have inv': "arenaInvariant s'"
      by (simp add: arenaInvariant_def lay)
    have look': "map_of (mPipelineLayouts s') (layout (mPipelineRequirements s)) =
                   Some (entry\<lparr>descriptorSetArenas := map butlast (descriptorSetArenas entry)\<rparr>)"
      using e by (simp add: lay lays_def map_of_map_entry_same owningLayout_def)
    from e res inv' look' ne False show ?thesis
      by auto
  qed
qed

theorem arenas_stay_balanced_witness:
  "arenaInvariant reuseCache \<and>
   (\<exists>r s' calls entry'.
      createDescriptorSets (exampleDriver VK_SUCCESS) reuseCache = Inr (r, s', calls) \<and>
      arenaInvariant s' \<and>
      map_of (mPipelineLayouts s') 0 = Some entry' \<and>
      descriptorSetArenas entry' = [[], [], []])"
proof -
  have a: "arenaInvariant reuseCache"
    by (simp add: arenaInvariant_def arenasBalanced_def reuseCache_def freshCache_def
        exampleLayout_def DESCRIPTOR_TYPE_COUNT_def)
  have b: "owningLayout (exampleDriver VK_SUCCESS) reuseCache = Some (exampleLayout [[200], [201], [202]])"
    by (simp add: owningLayout_cases reuseCache_def freshCache_def zeroPipelineKey_def
        exampleLayout_def)
  have c: "layout (mPipelineRequirements reuseCache) = 0"
    by (simp add: reuseCache_def freshCache_def zeroPipelineKey_def)
  show ?thesis
    using arenas_stay_balanced [OF a, of "exampleDriver VK_SUCCESS"] a
    by (auto simp: b c exampleLayout_def)
qed

section \<open>The ids of descriptor cache entries\<close>

text \<open>
  Claim C10. Every call of \<^verbatim>\<open>createDescriptorSets\<close> that returns has incremented the
  entry counter by one, also when the allocation failed and it returned null; the entry it
  inserts on a miss has the value of the counter before the call as its id. So, as long as
  the 32-bit counter does not wrap, the ids of all entries of the cache, active or extinct,
  stay below the counter and pairwise distinct, and an id is never used again after a
  failure. The trackers are kept in a map keyed by the id, which \<^verbatim>\<open>bindDescriptors\<close>
  keeps with one tracker per id.
\<close>

theorem entry_ids_come_from_the_counter:
  assumes "createDescriptorSets x s = Inr (r, s', calls)"
  shows "mDescriptorCacheEntryCount s' = mDescriptorCacheEntryCount s + 1 \<and>
    (r \<noteq> None \<and> map_of (mDescriptorSets s) (mDescriptorRequirements s) = None \<longrightarrow>
       (\<exists>new. map_of (mDescriptorSets s') (mDescriptorRequirements s) = Some new \<and>
              id_entry new = mDescriptorCacheEntryCount s)) \<and>
    (idInvariant s \<and> mDescriptorCacheEntryCount s + 1 \<noteq> 0 \<longrightarrow> idInvariant s') \<and>
    (\<forall>cmdbuffer b t bound.
       bindDescriptors x cmdbuffer s = Inr (b, t, bound) \<and>
       distinct (map fst (mDescriptorResources s)) \<longrightarrow>
       distinct (map fst (mDescriptorResources t)))"
proof -
  let ?c = "mDescriptorCacheEntryCount s"
  let ?req = "mDescriptorRequirements s"
  from createDescriptorSets_entries [OF assms] obtain m0 where
    cnt: "mDescriptorCacheEntryCount s' = ?c + 1"
    and m0: "m0 = mDescriptorSets s \<and> mExtinctDescriptorBundles s' = mExtinctDescriptorBundles s \<or>
             m0 = [] \<and> mExtinctDescriptorBundles s' =
               mExtinctDescriptorBundles s @ map snd (mDescriptorSets s)"
    and res: "r = None \<and> mDescriptorSets s' = m0 \<or>
        (\<exists>hs. r = Some ?req \<and>
              mDescriptorSets s' =
                emplace ?req \<lparr>handles = hs, lastUsed = 0, pipelineLayout = layout (mPipelineRequirements s),
                   id_entry = ?c\<rparr> m0)"
    by blast
  have miss0: "map_of (mDescriptorSets s) ?req = None \<Longrightarrow> map_of m0 ?req = None"
    using m0 by auto
  have part2: "r \<noteq> None \<and> map_of (mDescriptorSets s) ?req = None \<longrightarrow>
       (\<exists>new. map_of (mDescriptorSets s') ?req = Some new \<and> id_entry new = ?c)"
    using res miss0 by (auto simp: map_of_emplace)
  have part3: "idInvariant s'" if inv: "idInvariant s" and nowrap: "?c + 1 \<noteq> 0"
  proof -
    have f0: "idsFresh ?c (map snd (mDescriptorSets s) @ mExtinctDescriptorBundles s)"
      using inv by (simp add: idInvariant_def idsFresh_def allDescriptorEntries_def)
    have f1: "idsFresh ?c (map snd m0 @ mExtinctDescriptorBundles s')"
      using m0 f0 idsFresh_swap [OF f0] by auto
    from res show ?thesis
    proof
      assume "r = None \<and> mDescriptorSets s' = m0"
      then show ?thesis
        using idsFresh_succ [OF f1 nowrap]
        by (simp add: idInvariant_def idsFresh_def allDescriptorEntries_def cnt)
    next
      assume "\<exists>hs. r = Some ?req \<and>
              mDescriptorSets s' =
                emplace ?req \<lparr>handles = hs, lastUsed = 0, pipelineLayout = layout (mPipelineRequirements s),
                   id_entry = ?c\<rparr> m0"
      then obtain hs where
        ms: "mDescriptorSets s' = emplace ?req \<lparr>handles = hs, lastUsed = 0,
               pipelineLayout = layout (mPipelineRequirements s), id_entry = ?c\<rparr> m0"
        by blast
      show ?thesis
      proof (cases "map_of m0 ?req")
        case None
        then show ?thesis
          using idsFresh_insert [OF f1 nowrap, of "\<lparr>handles = hs, lastUsed = 0,
               pipelineLayout = layout (mPipelineRequirements s), id_entry = ?c\<rparr>"]
          by (simp add: idInvariant_def idsFresh_def allDescriptorEntries_def cnt ms map_snd_emplace)
      next
        case (Some old)
        then show ?thesis
          using idsFresh_succ [OF f1 nowrap]
          by (simp add: idInvariant_def idsFresh_def allDescriptorEntries_def cnt ms map_snd_emplace)
      qed
    qed
  qed
  have part4: "\<forall>cmdbuffer b t bound.
       bindDescriptors x cmdbuffer s = Inr (b, t, bound) \<and>
       distinct (map fst (mDescriptorResources s)) \<longrightarrow>
       distinct (map fst (mDescriptorResources t))"
    using bindDescriptors_trackers_distinct by blast
  from cnt part2 part3 part4 show ?thesis
    by blast
qed

theorem entry_ids_come_from_the_counter_witness:
  "createDescriptorSets (exampleDriver VK_SUCCESS) freshCache =
     Inr (Some zeroKey,
          freshCache
            \<lparr>mPipelineLayouts := [(0, exampleLayout [[], [], []])],
             mDescriptorCacheEntryCount := 1,
             mDescriptorSets := [(zeroKey, exampleEntry 0 [100, 101, 102])]\<rparr>,
          [Call_vkAllocateDescriptorSets 1 3 [51, 52, 53],
           Call_vkUpdateDescriptorSets
             (descriptorWrites 0xFFFFFFFF exampleDummyWrite zeroKey [100, 101, 102])]) \<and>
   map_of (mDescriptorSets freshCache) (mDescriptorRequirements freshCache) = None \<and>
   idInvariant freshCache \<and>
   mDescriptorCacheEntryCount freshCache + 1 \<noteq> 0 \<and>
   idInvariant
     (freshCache
        \<lparr>mPipelineLayouts := [(0, exampleLayout [[], [], []])],
         mDescriptorCacheEntryCount := 1,
         mDescriptorSets := [(zeroKey, exampleEntry 0 [100, 101, 102])]\<rparr>) \<and>
   bindDescriptors (exampleDriver VK_SUCCESS) 7 freshCache =
     Inr (True,
          freshCache
            \<lparr>mPipelineLayouts := [(0, exampleLayout [[], [], []])],
             mDescriptorCacheEntryCount := 1,
             mDescriptorSets := [(zeroKey, exampleEntry 0 [100, 101, 102])],
             mDescriptorResources := [(0, [])]\<rparr>,
          [Call_vkAllocateDescriptorSets 1 3 [51, 52, 53],
           Call_vkUpdateDescriptorSets
             (descriptorWrites 0xFFFFFFFF exampleDummyWrite zeroKey [100, 101, 102]),
           Call_acquireAll 0 [],
           Call_vkCmdBindDescriptorSets 7 50 [100, 101, 102]]) \<and>
   distinct (map fst (mDescriptorResources freshCache)) \<and>
   createDescriptorSets (exampleDriver VK_ERROR_OUT_OF_POOL_MEMORY) boundCache =
     Inr (None,
          boundCache\<lparr>mPipelineLayouts := [(0, exampleLayout [[], [], []]\<lparr>layoutLastUsed := 3\<rparr>)],
                     mDescriptorCacheEntryCount := 2\<rparr>,
          [Call_vkAllocateDescriptorSets 1 3 [51, 52, 53]]) \<and>
   mDescriptorCacheEntryCount boundCache = 1"
proof -
  let ?ok = "freshCache
            \<lparr>mPipelineLayouts := [(0, exampleLayout [[], [], []])],
             mDescriptorCacheEntryCount := 1,
             mDescriptorSets := [(zeroKey, exampleEntry 0 [100, 101, 102])]\<rparr>"
  have a: "createDescriptorSets (exampleDriver VK_SUCCESS) freshCache =
     Inr (Some zeroKey, ?ok,
          [Call_vkAllocateDescriptorSets 1 3 [51, 52, 53],
           Call_vkUpdateDescriptorSets
             (descriptorWrites 0xFFFFFFFF exampleDummyWrite zeroKey [100, 101, 102])])"
    by (simp add: createDescriptorSets_def getOrCreatePipelineLayout_def poolWouldOverflow_def
        updateAndEmplace_def emplace_def freshCache_def zeroPipelineKey_def exampleLayout_def
        exampleEntry_def exampleDriver_def INITIAL_DESCRIPTOR_SET_POOL_SIZE_def
        DESCRIPTOR_TYPE_COUNT_def Let_def upt_rec replicate_numeral)
  have b: "map_of (mDescriptorSets freshCache) (mDescriptorRequirements freshCache) = None"
    "idInvariant freshCache" "mDescriptorCacheEntryCount freshCache + 1 \<noteq> 0"
    "distinct (map fst (mDescriptorResources freshCache))"
    by (simp_all add: idInvariant_def idsFresh_def allDescriptorEntries_def freshCache_def)
  have c: "bindDescriptors (exampleDriver VK_SUCCESS) 7 freshCache =
     Inr (True, ?ok\<lparr>mDescriptorResources := [(0, [])]\<rparr>,
          [Call_vkAllocateDescriptorSets 1 3 [51, 52, 53],
           Call_vkUpdateDescriptorSets
             (descriptorWrites 0xFFFFFFFF exampleDummyWrite zeroKey [100, 101, 102]),
           Call_acquireAll 0 [],
           Call_vkCmdBindDescriptorSets 7 50 [100, 101, 102]])"
    unfolding bindDescriptors_def a
    by (simp add: bindCacheEntry_def getOrCreatePipelineLayout_def touch_def acquireAll_def
        DescEqual_refl freshCache_def zeroPipelineKey_def exampleLayout_def exampleEntry_def
        Let_def)
  have d: "createDescriptorSets (exampleDriver VK_ERROR_OUT_OF_POOL_MEMORY) boundCache =
     Inr (None,
          boundCache\<lparr>mPipelineLayouts := [(0, exampleLayout [[], [], []]\<lparr>layoutLastUsed := 3\<rparr>)],
                     mDescriptorCacheEntryCount := 2\<rparr>,
          [Call_vkAllocateDescriptorSets 1 3 [51, 52, 53]])"
    by (simp add: createDescriptorSets_def getOrCreatePipelineLayout_def poolWouldOverflow_def
        boundCache_def freshCache_def zeroPipelineKey_def exampleLayout_def exampleDriver_def
        INITIAL_DESCRIPTOR_SET_POOL_SIZE_def DESCRIPTOR_TYPE_COUNT_def Let_def)
  have e: "mDescriptorCacheEntryCount boundCache = 1"
    by (simp add: boundCache_def freshCache_def)
  show ?thesis
    using entry_ids_come_from_the_counter [OF a] entry_ids_come_from_the_counter [OF d] a b c d e
    by simp
qed

end
